theory Spec2Isabelle
  imports Complex_Main "HOL-Library.Char_ord" "HOL-Library.List_Lexorder"
    "HOL-Library.Log_Nat"
begin

section \<open>Complaints dashboard: loader, filter, aggregator, exporter\<close>

text \<open>
  A shallow embedding of \<^verbatim>\<open>Complaints Analysis/Oos.py\<close>. A data frame is the list of
  its rows, a row is a record of its columns, a missing cell (NaN, None, NaT) is \<open>None\<close>.
  A Python string is a \<open>string\<close>; a character of the model is a code point below 256.
\<close>

subsection \<open>Reporter extraction\<close>

text \<open>
  \<^verbatim>\<open>re.search(r'reported by (.+)$', str(subject))\<close>, with no flags:
  \<open>.\<close> matches every character but the line feed, \<open>$\<close> matches at the end of the text
  and just before a line feed that ends the text, \<open>.+\<close> is greedy and backtracks from
  the longest run down to one character, and the search tries every start position from
  the left.
\<close>

definition newline :: char where
  "newline = CHR 0x0A"

definition dot :: "char \<Rightarrow> bool" where
  "dot c = (c \<noteq> newline)"

definition at_dollar :: "string \<Rightarrow> bool" where
  "at_dollar rest = (rest = [] \<or> rest = [newline])"

definition match_group :: "string \<Rightarrow> string option" where
  "match_group rest =
     (let k = length (takeWhile dot rest)
      in map_option (\<lambda>n. take n rest)
           (find (\<lambda>n. at_dollar (drop n rest)) (rev [1..<Suc k])))"

definition reported_by :: string where
  "reported_by = ''reported by ''"

definition match_at :: "string \<Rightarrow> string option" where
  "match_at s =
     (if take (length reported_by) s = reported_by
      then match_group (drop (length reported_by) s) else None)"

fun re_search :: "string \<Rightarrow> string option" where
  "re_search [] = match_at []"
| "re_search (c # cs) =
     (case match_at (c # cs) of Some g \<Rightarrow> Some g | None \<Rightarrow> re_search cs)"

text \<open>
  \<^verbatim>\<open>str.strip()\<close> removes leading and trailing whitespace; these are the characters
  below 256 for which \<^verbatim>\<open>str.isspace\<close> holds.
\<close>

definition isspace :: "char \<Rightarrow> bool" where
  "isspace c = (c \<in> set [CHR 0x09, CHR 0x0A, CHR 0x0B, CHR 0x0C, CHR 0x0D,
                           CHR 0x1C, CHR 0x1D, CHR 0x1E, CHR 0x1F, CHR 0x20,
                           CHR 0x85, CHR 0xA0])"

definition strip :: "string \<Rightarrow> string" where
  "strip s = rev (dropWhile isspace (rev (dropWhile isspace s)))"

text \<open>
  The subject cell is \<open>None\<close> when \<^verbatim>\<open>pd.isna(subject)\<close> holds, and \<open>Some s\<close> with
  \<open>s\<close> the text \<^verbatim>\<open>str(subject)\<close> otherwise.
\<close>

definition extract_reporter :: "string option \<Rightarrow> string" where
  "extract_reporter subject =
     (case subject of
        None \<Rightarrow> ''Unknown''
      | Some s \<Rightarrow> (case re_search s of
                    Some g \<Rightarrow> strip g
                  | None \<Rightarrow> ''Unknown''))"

text \<open>
  The reading of the specification: \<^verbatim>\<open>str.find\<close> of the literal, and the trimmed
  remainder after its first occurrence.
\<close>

fun find_sub :: "string \<Rightarrow> string \<Rightarrow> nat option" where
  "find_sub lit [] = (if lit = [] then Some 0 else None)"
| "find_sub lit (c # cs) =
     (if take (length lit) (c # cs) = lit then Some 0
      else map_option Suc (find_sub lit cs))"

definition spec_extract_reporter :: "string option \<Rightarrow> string" where
  "spec_extract_reporter subject =
     (case subject of
        None \<Rightarrow> ''Unknown''
      | Some s \<Rightarrow> (case find_sub reported_by s of
                    None \<Rightarrow> ''Unknown''
                  | Some i \<Rightarrow> strip (drop (i + length reported_by) s)))"

subsection \<open>Timestamps, cells and rows\<close>

text \<open>
  A parsed timestamp: \<open>date\<close> is the ordinal of its calendar day
  (\<^verbatim>\<open>date.toordinal()\<close>, day 1 is Monday 0001-01-01), so that dates compare as their
  ordinals do; \<open>hour\<close> is the hour of the day and \<open>subhour\<close> what is left of the time.
\<close>

record timestamp =
  date :: int
  hour :: nat
  subhour :: nat

definition day_name :: "int \<Rightarrow> string" where
  "day_name d =
     [''Monday'', ''Tuesday'', ''Wednesday'', ''Thursday'', ''Friday'', ''Saturday'',
      ''Sunday''] ! nat ((d + 6) mod 7)"

text \<open>
  A row of the sheet \<^verbatim>\<open>Internal Requests\<close> as \<^verbatim>\<open>pd.read_excel\<close> delivers it. The
  cell of the timestamp column is of any type \<open>'c\<close>: only \<^verbatim>\<open>pd.to_datetime\<close> reads it.
\<close>

record 'c raw_row =
  Main_Category_Name :: "string option"
  Product_Name :: "string option"
  Ticket_Created_At_eet :: 'c
  FP_Name :: "string option"
  Picker_Name :: "string option"
  Ticket_Subject :: "string option"

text \<open>
  A row of the loaded table. \<open>Subject\<close> is the column \<^verbatim>\<open>Ticket Subject\<close>, which the
  loader keeps as it is.
\<close>

record row =
  Main_Category :: string
  Product :: "string option"
  Report_Time :: "timestamp option"
  Facility :: "string option"
  Picker :: "string option"
  Subject :: "string option"
  Reporter :: string
  Day :: "string option"
  Hour :: "nat option"
  Date :: "int option"

subsection \<open>Loader\<close>

text \<open>
  \<^verbatim>\<open>pd.to_datetime(column, errors='coerce')\<close> is a parameter: it maps the column to a
  column of timestamps in which an entry that does not parse is NaT (\<open>None\<close>). The result
  is assigned by position; \<open>pad\<close> fills positions the result does not have with NaT, as
  an assignment aligned on the index does.
\<close>

definition pad :: "nat \<Rightarrow> 'a option list \<Rightarrow> 'a option list" where
  "pad n xs = take n (xs @ replicate n None)"

definition fillna :: "string option \<Rightarrow> string \<Rightarrow> string" where
  "fillna v d = (case v of None \<Rightarrow> d | Some s \<Rightarrow> s)"

definition replace_value :: "string \<Rightarrow> string \<Rightarrow> string \<Rightarrow> string" where
  "replace_value v old new = (if v = old then new else v)"

definition dropna :: "('a \<times> 'b option) list \<Rightarrow> ('a \<times> 'b option) list" where
  "dropna df = filter (\<lambda>(r, t). t \<noteq> None) df"

definition load_row :: "'c raw_row \<times> timestamp option \<Rightarrow> row" where
  "load_row = (\<lambda>(r, t).
     \<lparr> Main_Category =
         replace_value (fillna (Main_Category_Name r) ''Undefined'') [] ''Undefined'',
       Product = Product_Name r,
       Report_Time = t,
       Facility = FP_Name r,
       Picker = Picker_Name r,
       Subject = Ticket_Subject r,
       Reporter = extract_reporter (Ticket_Subject r),
       Day = map_option (\<lambda>ts. day_name (date ts)) t,
       Hour = map_option hour t,
       Date = map_option date t \<rparr>)"

definition load_data ::
  "('c list \<Rightarrow> timestamp option list) \<Rightarrow> 'c raw_row list \<Rightarrow> row list" where
  "load_data to_datetime raw =
     (let times = pad (length raw) (to_datetime (map Ticket_Created_At_eet raw))
      in map load_row (dropna (zip raw times)))"

subsection \<open>Filter\<close>

datatype error = IndexError | ValueError

definition getitem :: "'a list \<Rightarrow> nat \<Rightarrow> error + 'a" where
  "getitem xs i = (if i < length xs then Inr (xs ! i) else Inl IndexError)"

text \<open>
  The comparisons of the column \<open>Date\<close> with a date, element by element; a missing entry
  compares false. \<open>select\<close> is the indexing of a frame by a boolean mask.
\<close>

definition ge_date :: "int option list \<Rightarrow> int \<Rightarrow> bool list" where
  "ge_date col d = map (\<lambda>x. case x of None \<Rightarrow> False | Some v \<Rightarrow> d \<le> v) col"

definition le_date :: "int option list \<Rightarrow> int \<Rightarrow> bool list" where
  "le_date col d = map (\<lambda>x. case x of None \<Rightarrow> False | Some v \<Rightarrow> v \<le> d) col"

definition isin :: "string list \<Rightarrow> string list \<Rightarrow> bool list" where
  "isin col vals = map (\<lambda>x. x \<in> set vals) col"

definition mask_and :: "bool list \<Rightarrow> bool list \<Rightarrow> bool list" where
  "mask_and xs ys = map (\<lambda>(a, b). a \<and> b) (zip xs ys)"

definition select :: "'a list \<Rightarrow> bool list \<Rightarrow> 'a list" where
  "select df msk = map fst (filter snd (zip df msk))"

definition filtered_df :: "row list \<Rightarrow> int list \<Rightarrow> string list \<Rightarrow> error + row list" where
  "filtered_df df date_range category_filter =
     (case getitem date_range 0 of
        Inl e \<Rightarrow> Inl e
      | Inr d0 \<Rightarrow>
          (case getitem date_range 1 of
             Inl e \<Rightarrow> Inl e
           | Inr d1 \<Rightarrow>
               Inr (select df
                      (mask_and
                         (mask_and (ge_date (map Date df) d0) (le_date (map Date df) d1))
                         (isin (map Main_Category df) category_filter)))))"

subsection \<open>Aggregator\<close>

text \<open>
  \<^verbatim>\<open>value_counts().to_dict()\<close>: the distinct values with their numbers of occurrences,
  by descending count; the dictionary is the list of its items in insertion order. The
  order among values of equal count is the library's; here it is that of their first
  occurrence.
\<close>

definition value_counts :: "string list \<Rightarrow> (string \<times> nat) list" where
  "value_counts xs =
     sort_key (\<lambda>(v, n). - int n)
       (map (\<lambda>v. (v, count_list xs v)) (rev (remdups (rev xs))))"

text \<open>\<^verbatim>\<open>groupby('Main_Category')\<close>: one group for each key, the keys sorted.\<close>

definition groupby_Main_Category :: "row list \<Rightarrow> (string \<times> row list) list" where
  "groupby_Main_Category df =
     map (\<lambda>k. (k, filter (\<lambda>r. Main_Category r = k) df))
       (sort (remdups (map Main_Category df)))"

text \<open>
  The rows of \<^verbatim>\<open>category_report\<close>; \<open>Main_Category_grp\<close> is its column
  \<^verbatim>\<open>Main_Category\<close>. The floating-point operations of the percentage column
  (\<^verbatim>\<open>/\<close>, \<^verbatim>\<open>*\<close> and \<^verbatim>\<open>round\<close> of a float column) are parameters.
\<close>

record agg_row =
  Main_Category_grp :: string
  Report_Count :: nat
  Reporters :: "(string \<times> nat) list"

record 'f report_row = agg_row +
  Percentage :: 'f
  Top_Reporters :: string

record 'f float_ops =
  f_truediv :: "int \<Rightarrow> int \<Rightarrow> 'f"
  f_mul :: "'f \<Rightarrow> int \<Rightarrow> 'f"
  f_round :: "'f \<Rightarrow> nat \<Rightarrow> 'f"

definition category_agg :: "row list \<Rightarrow> agg_row list" where
  "category_agg filtered =
     map (\<lambda>(k, g).
            \<lparr> Main_Category_grp = k,
              Report_Count = length (map Main_Category g),
              Reporters = value_counts (map Reporter g) \<rparr>)
       (groupby_Main_Category filtered)"

definition total_reports :: "row list \<Rightarrow> nat" where
  "total_reports filtered = length filtered"

fun str_nat :: "nat \<Rightarrow> string" where
  "str_nat n =
     (if n < 10 then [char_of (48 + n)]
      else str_nat (n div 10) @ [char_of (48 + n mod 10)])"

fun join :: "string \<Rightarrow> string list \<Rightarrow> string" where
  "join sep [] = []"
| "join sep [x] = x"
| "join sep (x # y # ys) = x @ sep @ join sep (y # ys)"

definition format_reporters :: "(string \<times> nat) list \<Rightarrow> string" where
  "format_reporters reporter_dict =
     (let sorted_reporters = sort_key (\<lambda>(reporter, count). - int count) reporter_dict
      in join '', ''
           (map (\<lambda>(reporter, count). reporter @ '' ('' @ str_nat count @ '')'')
              sorted_reporters))"

definition category_report :: "'f float_ops \<Rightarrow> row list \<Rightarrow> 'f report_row list" where
  "category_report ops filtered =
     map (\<lambda>g.
            \<lparr> Main_Category_grp = Main_Category_grp g,
              Report_Count = Report_Count g,
              Reporters = Reporters g,
              Percentage =
                f_round ops
                  (f_mul ops
                     (f_truediv ops (int (Report_Count g)) (int (total_reports filtered)))
                     100)
                  1,
              Top_Reporters = format_reporters (Reporters g) \<rparr>)
       (category_agg filtered)"

text \<open>
  The arithmetic of the percentage column is that of float64 (IEEE 754 binary64, round to
  nearest, ties to even). A float is a rational number or one of the special values; the
  sign of a zero is not kept.
\<close>

datatype fval = Fin rat | PosInf | NegInf | NaN

text \<open>\<open>rint\<close> rounds to the nearest integer, a tie to the even one.\<close>

definition rint :: "rat \<Rightarrow> int" where
  "rint q =
     (let f = \<lfloor>q\<rfloor>; d = q - of_int f
      in if d < 1 / 2 then f
         else if 1 / 2 < d then f + 1
         else if even f then f else f + 1)"

text \<open>
  \<open>ilog2 q\<close> is the exponent \<open>e\<close> with \<open>2 ^ e \<le> q < 2 ^ (e + 1)\<close>, for a positive \<open>q\<close>,
  found from the bit lengths of numerator and denominator.
\<close>

definition ilog2 :: "rat \<Rightarrow> int" where
  "ilog2 q =
     (let (a, b) = quotient_of q; d = bitlen a - bitlen b
      in if 2 powi d \<le> q then d else d - 1)"

text \<open>
  \<open>f64 q\<close> is the float nearest to \<open>q\<close>: a multiple of \<open>2 ^ (e - 52)\<close>, where \<open>e\<close> is
  the exponent of \<open>q\<close> and at least \<open>-1022\<close> (below it the numbers are subnormal and
  multiples of \<open>2 ^ -1074\<close>); a result of magnitude \<open>2 ^ 1024\<close> or more is an infinity.
\<close>

definition f64 :: "rat \<Rightarrow> fval" where
  "f64 q =
     (if q = 0 then Fin 0
      else
        let e = max (ilog2 \<bar>q\<bar>) (- 1022);
            u = 2 powi (e - 52);
            r = of_int (rint (q / u)) * u
        in if 2 powi 1024 \<le> \<bar>r\<bar> then (if 0 < q then PosInf else NegInf) else Fin r)"

definition f64_of_int :: "int \<Rightarrow> fval" where
  "f64_of_int a = f64 (of_int a)"

definition f64_div :: "fval \<Rightarrow> fval \<Rightarrow> fval" where
  "f64_div x y =
     (case (x, y) of
        (Fin p, Fin q) \<Rightarrow>
          if q = 0 then (if p = 0 then NaN else if 0 < p then PosInf else NegInf)
          else f64 (p / q)
      | (Fin p, PosInf) \<Rightarrow> Fin 0
      | (Fin p, NegInf) \<Rightarrow> Fin 0
      | (PosInf, Fin q) \<Rightarrow> if 0 \<le> q then PosInf else NegInf
      | (NegInf, Fin q) \<Rightarrow> if 0 \<le> q then NegInf else PosInf
      | _ \<Rightarrow> NaN)"

definition f64_times :: "fval \<Rightarrow> fval \<Rightarrow> fval" where
  "f64_times x y =
     (case (x, y) of
        (Fin p, Fin q) \<Rightarrow> f64 (p * q)
      | (Fin p, PosInf) \<Rightarrow> if p = 0 then NaN else if 0 < p then PosInf else NegInf
      | (Fin p, NegInf) \<Rightarrow> if p = 0 then NaN else if 0 < p then NegInf else PosInf
      | (PosInf, Fin q) \<Rightarrow> if q = 0 then NaN else if 0 < q then PosInf else NegInf
      | (NegInf, Fin q) \<Rightarrow> if q = 0 then NaN else if 0 < q then NegInf else PosInf
      | (PosInf, PosInf) \<Rightarrow> PosInf
      | (NegInf, NegInf) \<Rightarrow> PosInf
      | (PosInf, NegInf) \<Rightarrow> NegInf
      | (NegInf, PosInf) \<Rightarrow> NegInf
      | _ \<Rightarrow> NaN)"

definition f64_rint :: "fval \<Rightarrow> fval" where
  "f64_rint x = (case x of Fin p \<Rightarrow> f64 (of_int (rint p)) | _ \<Rightarrow> x)"

text \<open>
  The three operations of line 78. An integer column divided by an integer: both are
  converted to floats and divided, and a division by zero gives an infinity or NaN and
  raises nothing. A float column times an integer. \<^verbatim>\<open>round(d)\<close> of a float column
  multiplies by \<open>10 ^ d\<close>, rounds to the nearest integer and divides by \<open>10 ^ d\<close>, each
  step in float64.
\<close>

definition f64_truediv :: "int \<Rightarrow> int \<Rightarrow> fval" where
  "f64_truediv a b = f64_div (f64_of_int a) (f64_of_int b)"

definition f64_mul :: "fval \<Rightarrow> int \<Rightarrow> fval" where
  "f64_mul x k = f64_times x (f64_of_int k)"

definition f64_round :: "fval \<Rightarrow> nat \<Rightarrow> fval" where
  "f64_round x d =
     (let f = f64_of_int (10 ^ d)
      in f64_div (f64_rint (f64_times x f)) f)"

definition float64_ops :: "fval float_ops" where
  "float64_ops = \<lparr> f_truediv = f64_truediv, f_mul = f64_mul, f_round = f64_round \<rparr>"

subsection \<open>Exporter\<close>

text \<open>
  A frame handed to the exporter: its column names and its rows of cells. A workbook is
  the list of its sheets in the order written, each a name and a grid of rows in which
  \<open>NA\<close> is an empty cell.
\<close>

datatype cell = NA | Str string | Num int | Flt fval | Dt int | Ts timestamp

record frame =
  columns :: "string list"
  data :: "cell list list"

type_synonym workbook = "(string \<times> cell list list) list"

definition cell_of :: "('a \<Rightarrow> cell) \<Rightarrow> 'a option \<Rightarrow> cell" where
  "cell_of c v = (case v of None \<Rightarrow> NA | Some x \<Rightarrow> c x)"

definition summary_df :: "fval report_row list \<Rightarrow> frame" where
  "summary_df report =
     \<lparr> columns = [''Main_Category'', ''Report_Count'', ''Percentage'', ''Top_Reporters''],
       data = map (\<lambda>g. [Str (Main_Category_grp g), Num (int (Report_Count g)),
                         Flt (Percentage g), Str (Top_Reporters g)]) report \<rparr>"

definition detailed_df :: "row list \<Rightarrow> frame" where
  "detailed_df filtered =
     \<lparr> columns = [''Date'', ''Report_Time'', ''Main_Category'', ''Product'', ''Reporter'',
                  ''Facility''],
       data = map (\<lambda>r. [cell_of Dt (Date r), cell_of Ts (Report_Time r),
                         Str (Main_Category r), cell_of Str (Product r),
                         Str (Reporter r), cell_of Str (Facility r)]) filtered \<rparr>"

text \<open>
  What the writer leaves in the sheet for a value of a frame: a missing value and NaN are
  written as the empty text, and an empty text leaves the cell empty; an infinity is
  written as a text.
\<close>

definition stored :: "cell \<Rightarrow> cell" where
  "stored c =
     (case c of
        NA \<Rightarrow> NA
      | Str s \<Rightarrow> if s = [] then NA else Str s
      | Flt x \<Rightarrow>
          (case x of
             NaN \<Rightarrow> NA
           | PosInf \<Rightarrow> Str ''inf''
           | NegInf \<Rightarrow> Str ''-inf''
           | Fin q \<Rightarrow> Flt (Fin q))
      | Num n \<Rightarrow> Num n
      | Dt d \<Rightarrow> Dt d
      | Ts t \<Rightarrow> Ts t)"

text \<open>
  \<^verbatim>\<open>df.to_excel(writer, index=False, sheet_name=n)\<close>: a frame of more than \<open>2 ^ 20\<close> rows
  or \<open>2 ^ 14\<close> columns is refused; otherwise the sheet \<open>n\<close> gets the row of column names
  followed by one row for each row of the frame, and what falls below the last row of a
  sheet, the row \<open>2 ^ 20\<close>, is dropped. The sheet names of the program's only call are
  distinct and valid.
\<close>

definition df_to_excel :: "workbook \<Rightarrow> frame \<Rightarrow> string \<Rightarrow> error + workbook" where
  "df_to_excel writer df sheet_name =
     (if 2 ^ 20 < length (data df) \<or> 2 ^ 14 < length (columns df) then Inl ValueError
      else Inr (writer @
             [(sheet_name,
               take (2 ^ 20) (map Str (columns df) # map (map stored) (data df)))]))"

fun write_frames :: "nat \<Rightarrow> frame list \<Rightarrow> string list \<Rightarrow> workbook \<Rightarrow> error + workbook" where
  "write_frames i [] sheet_names writer = Inr writer"
| "write_frames i (df # dfs) sheet_names writer =
     (case getitem sheet_names i of
        Inl e \<Rightarrow> Inl e
      | Inr n \<Rightarrow>
          (case df_to_excel writer df n of
             Inl e \<Rightarrow> Inl e
           | Inr writer' \<Rightarrow> write_frames (Suc i) dfs sheet_names writer'))"

definition to_excel :: "frame list \<Rightarrow> string list \<Rightarrow> error + workbook" where
  "to_excel dfs sheet_names = write_frames 0 dfs sheet_names []"

text \<open>Lines 157 to 165: the summary and the detail frame of a filtered table, exported.\<close>

definition excel_file :: "fval float_ops \<Rightarrow> row list \<Rightarrow> error + workbook" where
  "excel_file ops filtered =
     to_excel [summary_df (category_report ops filtered), detailed_df filtered]
       [''Category Summary'', ''Detailed Complaints'']"

text \<open>
  Re-reading a sheet is not part of the program. It is the library's reader with its
  defaults: a sheet that is not there is an error; the empty rows at the end of the sheet
  are dropped, an empty row between others is kept; the first row is the header and every
  further row is a record; an empty cell is read as missing, and how any other cell is
  converted is the parameter \<open>conv\<close>.
\<close>

definition blank_row :: "cell list \<Rightarrow> bool" where
  "blank_row r = list_all (\<lambda>c. c = NA) r"

definition trim_rows :: "cell list list \<Rightarrow> cell list list" where
  "trim_rows rows = rev (dropWhile blank_row (rev rows))"

definition read_excel ::
  "(cell \<Rightarrow> 'v) \<Rightarrow> workbook \<Rightarrow> string \<Rightarrow> error + 'v option list list" where
  "read_excel conv wb sheet_name =
     (case map_of wb sheet_name of
        None \<Rightarrow> Inl ValueError
      | Some grid \<Rightarrow>
          (case trim_rows grid of
             [] \<Rightarrow> Inr []
           | header # records \<Rightarrow>
               Inr (map (map (\<lambda>c. if c = NA then None else Some (conv c))) records)))"

subsection \<open>Sample data\<close>

text \<open>
  A small sheet for the instances below. Its timestamp cells hold a day ordinal and an
  hour, or nothing; the parser reads them as they are and gives NaT for an empty cell.
\<close>

definition sample_to_datetime :: "(int \<times> nat) option list \<Rightarrow> timestamp option list" where
  "sample_to_datetime col =
     map (map_option (\<lambda>(d, h). \<lparr> date = d, hour = h, subhour = 0 \<rparr>)) col"

definition sample_raw ::
  "string option \<Rightarrow> string option \<Rightarrow> (int \<times> nat) option \<Rightarrow>
   (int \<times> nat) option raw_row" where
  "sample_raw category subject created =
     \<lparr> Main_Category_Name = category, Product_Name = Some ''Milk'',
       Ticket_Created_At_eet = created, FP_Name = Some ''North'', Picker_Name = None,
       Ticket_Subject = subject \<rparr>"

definition sample_sheet :: "(int \<times> nat) option raw_row list" where
  "sample_sheet =
     [sample_raw (Some ''Late'') (Some ''Order 5 reported by Ann'') (Some (10, 9)),
      sample_raw None (Some ''reported by Bob'') (Some (11, 14)),
      sample_raw (Some ''Damaged'') None None,
      sample_raw (Some ''Damaged'') (Some ''Box reported by Ann'') (Some (12, 8)),
      sample_raw (Some ''Late'') (Some ''reported by Bob'') (Some (13, 7)),
      sample_raw (Some ''Late'') (Some ''Again reported by Ann '') (Some (14, 1)),
      sample_raw (Some []) (Some ''no reporter'') (Some (15, 0))]"

definition sample_row ::
  "string \<Rightarrow> string option \<Rightarrow> string \<Rightarrow> string \<Rightarrow> int \<Rightarrow> nat \<Rightarrow> row" where
  "sample_row category subject reporter weekday d h =
     \<lparr> Main_Category = category, Product = Some ''Milk'',
       Report_Time = Some \<lparr> date = d, hour = h, subhour = 0 \<rparr>,
       Facility = Some ''North'', Picker = None, Subject = subject, Reporter = reporter,
       Day = Some weekday, Hour = Some h, Date = Some d \<rparr>"

definition sample_filtered :: "row list" where
  "sample_filtered =
     [sample_row ''Late'' (Some ''Order 5 reported by Ann'') ''Ann'' ''Wednesday'' 10 9,
      sample_row ''Undefined'' (Some ''reported by Bob'') ''Bob'' ''Thursday'' 11 14,
      sample_row ''Damaged'' (Some ''Box reported by Ann'') ''Ann'' ''Friday'' 12 8]"

section \<open>Properties\<close>

declare str_nat.simps [simp del]

subsection \<open>The regular expression\<close>

lemma match_group_line:
  assumes "rest \<noteq> []" and "newline \<notin> set rest"
  shows "match_group rest = Some rest"
proof -
  have tw: "takeWhile dot rest = rest"
    using assms by (auto simp: dot_def)
  obtain k where k: "length rest = Suc k"
    using assms by (cases rest) auto
  have "rev [1..<Suc (Suc k)] = Suc k # rev [1..<Suc k]"
    by simp
  then show ?thesis
    unfolding match_group_def tw Let_def k using k by (simp add: at_dollar_def)
qed

lemma match_group_Nil: "match_group [] = None"
  by (simp add: match_group_def)

lemma take_eq_length: "take (length lit) s = lit \<Longrightarrow> length lit \<le> length s"
proof -
  assume h: "take (length lit) s = lit"
  have "length (take (length lit) s) = length lit"
    by (simp only: h)
  then show ?thesis by simp
qed

lemma match_at_short: "length s < length reported_by \<Longrightarrow> match_at s = None"
  using take_eq_length [of reported_by s] by (auto simp: match_at_def)

lemma re_search_short: "length s < length reported_by \<Longrightarrow> re_search s = None"
  by (induction s) (simp_all add: match_at_short)

lemma re_search_absent: "find_sub reported_by s = None \<Longrightarrow> re_search s = None"
proof (induction s)
  case Nil
  then show ?case by (simp add: match_at_def split: if_splits)
next
  case (Cons c cs)
  then show ?case by (simp add: match_at_def split: if_splits)
qed

text \<open>
  The search settles at the first occurrence of the literal when the rest of the pattern
  matches there, and goes on to the right of it otherwise.
\<close>

lemma re_search_first:
  "find_sub reported_by s = Some i \<Longrightarrow>
   re_search s = (case match_group (drop (i + length reported_by) s) of
                    Some g \<Rightarrow> Some g
                  | None \<Rightarrow> re_search (drop (Suc i) s))"
proof (induction s arbitrary: i)
  case Nil
  then show ?case by (simp add: reported_by_def)
next
  case (Cons c cs)
  show ?case
  proof (cases "take (length reported_by) (c # cs) = reported_by")
    case True
    with Cons.prems have "i = 0" by simp
    with True show ?thesis by (simp add: match_at_def split: option.splits)
  next
    case False
    with Cons.prems obtain j where j: "find_sub reported_by cs = Some j" "i = Suc j"
      by auto
    from False have "match_at (c # cs) = None"
      by (simp add: match_at_def)
    with Cons.IH [OF j(1)] show ?thesis
      unfolding j(2) by (simp split: option.splits)
  qed
qed

lemma find_sub_bound: "find_sub lit s = Some i \<Longrightarrow> i + length lit \<le> length s"
proof (induction s arbitrary: i)
  case Nil
  then show ?case by (auto split: if_splits)
next
  case (Cons c cs)
  show ?case
  proof (cases "take (length lit) (c # cs) = lit")
    case True
    with take_eq_length [OF True] Cons.prems show ?thesis by simp
  next
    case False
    with Cons show ?thesis by auto
  qed
qed

lemma strip_spaces: "strip (replicate n CHR '' '') = []"
  by (simp add: strip_def isspace_def)

text \<open>
  C1, as stated, fails. When the text ends with \<open>reported by \<close> the pattern needs one more
  character, and when a line feed stands inside the remainder the pattern cannot reach
  the end of the text: in both cases the result is \<open>Unknown\<close> where the trimmed remainder
  is the empty text or \<open>Jane\<close>, line feed, \<open>Doe\<close>.
\<close>

theorem extract_reporter_counterexample:
  "spec_extract_reporter (Some ''Issue X reported by '') = [] \<and>
   extract_reporter (Some ''Issue X reported by '') = ''Unknown'' \<and>
   spec_extract_reporter (Some (''Issue X reported by Jane'' @ [newline] @ ''Doe''))
     = ''Jane'' @ [newline] @ ''Doe'' \<and>
   extract_reporter (Some (''Issue X reported by Jane'' @ [newline] @ ''Doe''))
     = ''Unknown''"
  by (simp add: spec_extract_reporter_def extract_reporter_def reported_by_def
      match_at_def match_group_def dot_def at_dollar_def newline_def strip_def isspace_def)

text \<open>
  C1, amended: a missing subject gives \<open>Unknown\<close>; a subject without \<open>reported by \<close>
  gives \<open>Unknown\<close>; when the text after the first occurrence of \<open>reported by \<close> is not
  empty and holds no line feed, the result is that text, trimmed; when the first
  occurrence ends the subject, the result is \<open>Unknown\<close>. The subject
  \<open>Issue X reported by Jane Doe\<close> gives \<open>Jane Doe\<close>.
\<close>

theorem extract_reporter_amended:
  "extract_reporter None = ''Unknown'' \<and>
   (find_sub reported_by s = None \<longrightarrow> extract_reporter (Some s) = ''Unknown'') \<and>
   (find_sub reported_by s = Some i \<and> drop (i + length reported_by) s \<noteq> [] \<and>
      newline \<notin> set (drop (i + length reported_by) s) \<longrightarrow>
      extract_reporter (Some s) = strip (drop (i + length reported_by) s)) \<and>
   (find_sub reported_by s = Some i \<and> drop (i + length reported_by) s = [] \<longrightarrow>
      extract_reporter (Some s) = ''Unknown'') \<and>
   extract_reporter (Some ''Issue X reported by Jane Doe'') = ''Jane Doe''"
proof (intro conjI impI)
  show "extract_reporter None = ''Unknown''"
    by (simp add: extract_reporter_def)
next
  assume "find_sub reported_by s = None"
  then show "extract_reporter (Some s) = ''Unknown''"
    by (simp add: extract_reporter_def re_search_absent)
next
  assume "find_sub reported_by s = Some i \<and> drop (i + length reported_by) s \<noteq> [] \<and>
      newline \<notin> set (drop (i + length reported_by) s)"
  then show "extract_reporter (Some s) = strip (drop (i + length reported_by) s)"
    by (simp add: extract_reporter_def re_search_first match_group_line)
next
  assume a: "find_sub reported_by s = Some i \<and> drop (i + length reported_by) s = []"
  then have "length s \<le> i + length reported_by"
    by simp
  then have "length (drop (Suc i) s) < length reported_by"
    using find_sub_bound [of reported_by s i] a by (simp add: reported_by_def)
  then have "re_search (drop (Suc i) s) = None"
    by (rule re_search_short)
  with a show "extract_reporter (Some s) = ''Unknown''"
    by (simp add: extract_reporter_def re_search_first match_group_Nil)
next
  show "extract_reporter (Some ''Issue X reported by Jane Doe'') = ''Jane Doe''"
    by (simp add: extract_reporter_def reported_by_def match_at_def match_group_def
        dot_def at_dollar_def newline_def strip_def isspace_def)
qed

theorem extract_reporter_amended_witness:
  "find_sub reported_by ''Ticket 12'' = None \<and>
   extract_reporter (Some ''Ticket 12'') = ''Unknown'' \<and>
   find_sub reported_by ''Late reported by  Ann Lee '' = Some 5 \<and>
   extract_reporter (Some ''Late reported by  Ann Lee '') = ''Ann Lee'' \<and>
   find_sub reported_by ''Late reported by '' = Some 5 \<and>
   extract_reporter (Some ''Late reported by '') = ''Unknown''"
proof -
  have n: "find_sub reported_by ''Ticket 12'' = None"
    by (simp add: reported_by_def)
  have p: "find_sub reported_by ''Late reported by  Ann Lee '' = Some 5"
    by (simp add: reported_by_def)
  have e: "find_sub reported_by ''Late reported by '' = Some 5"
    by (simp add: reported_by_def)
  from n extract_reporter_amended [of "''Ticket 12''" 0]
  have 1: "extract_reporter (Some ''Ticket 12'') = ''Unknown''"
    by blast
  from p extract_reporter_amended [of "''Late reported by  Ann Lee ''" 5]
  have 2: "extract_reporter (Some ''Late reported by  Ann Lee '') = ''Ann Lee''"
    by (simp add: reported_by_def newline_def strip_def isspace_def)
  from e extract_reporter_amended [of "''Late reported by ''" 5]
  have 3: "extract_reporter (Some ''Late reported by '') = ''Unknown''"
    by (simp add: reported_by_def)
  from n p e 1 2 3 show ?thesis
    by blast
qed

text \<open>
  C10: when \<open>reported by \<close> is followed by spaces only, one at least, the pattern matches
  the spaces and the trimmed result is the empty text, not \<open>Unknown\<close>.
\<close>

theorem extract_reporter_can_be_empty:
  "extract_reporter (Some (''Issue X reported by '' @ replicate (Suc n) CHR '' '')) = [] \<and>
   extract_reporter (Some (''Issue X reported by '' @ replicate (Suc n) CHR '' ''))
     \<noteq> ''Unknown''"
proof -
  have "match_group (replicate (Suc n) CHR '' '') = Some (replicate (Suc n) CHR '' '')"
    by (rule match_group_line) (auto simp: newline_def)
  then have "extract_reporter
      (Some (''Issue X reported by '' @ replicate (Suc n) CHR '' '')) = []"
    by (simp add: extract_reporter_def match_at_def reported_by_def strip_spaces
        del: replicate_Suc replicate.simps)
  then show ?thesis by simp
qed

subsection \<open>Float64 arithmetic\<close>

lemma two_powi_pos: "0 < (2::rat) powi e"
  by (simp add: zero_less_power_int)

lemma two_powi_mono: "a \<le> b \<Longrightarrow> (2::rat) powi a \<le> 2 powi b"
  by (rule power_int_increasing) simp_all

lemma two_powi_less: "a < b \<Longrightarrow> (2::rat) powi a < 2 powi b"
  by (rule power_int_strict_increasing) simp_all

lemma two_powi_less_iff: "(2::rat) powi a < 2 powi b \<longleftrightarrow> a < b"
  using two_powi_mono [of b a] two_powi_less [of a b] by (auto simp: not_le [symmetric])

lemma two_powi_diff: "(2::rat) powi (a - b) = 2 powi a / 2 powi b"
  by (rule power_int_diff) simp

lemma two_powi_add: "(2::rat) powi (a + b) = 2 powi a * 2 powi b"
  by (rule power_int_add) simp

lemma bitlen_powi:
  assumes "0 < a"
  shows "(2::rat) powi (bitlen a - 1) \<le> of_int a" and "of_int a < (2::rat) powi bitlen a"
proof -
  from bitlen_bounds [OF assms]
  have l: "2 ^ nat (bitlen a - 1) \<le> a" and u: "a < 2 ^ nat (bitlen a)"
    by simp_all
  have p: "1 \<le> bitlen a"
    using assms by (auto simp: bitlen_alt_def)
  have "(2::rat) powi (bitlen a - 1) = 2 ^ nat (bitlen a - 1)"
    using p by (simp add: power_int_nonneg_exp)
  also have "\<dots> = of_int (2 ^ nat (bitlen a - 1))"
    by simp
  also have "\<dots> \<le> of_int a"
    using l by (simp only: of_int_le_iff)
  finally show "(2::rat) powi (bitlen a - 1) \<le> of_int a" .
  have "(of_int a :: rat) < of_int (2 ^ nat (bitlen a))"
    using u by (simp only: of_int_less_iff)
  also have "\<dots> = 2 ^ nat (bitlen a)"
    by simp
  also have "\<dots> = 2 powi bitlen a"
    using p by (simp add: power_int_nonneg_exp)
  finally show "of_int a < (2::rat) powi bitlen a" .
qed

lemma ilog2_bounds:
  assumes "0 < q"
  shows "2 powi ilog2 q \<le> q" and "q < 2 powi (ilog2 q + 1)"
proof -
  obtain a b where ab: "quotient_of q = (a, b)"
    by (cases "quotient_of q")
  then have b: "0 < b" and q: "q = of_int a / of_int b"
    by (simp_all add: quotient_of_denom_pos quotient_of_div)
  with assms have a: "0 < a"
    by (simp add: zero_less_divide_iff)
  let ?d = "bitlen a - bitlen b"
  have lo: "2 powi (?d - 1) \<le> q"
  proof -
    have "2 powi (?d - 1) = (2::rat) powi (bitlen a - 1) / 2 powi bitlen b"
      by (simp add: two_powi_diff [symmetric] algebra_simps)
    also have "\<dots> \<le> of_int a / 2 powi bitlen b"
      using bitlen_powi(1) [OF a] by (simp add: divide_right_mono two_powi_pos less_imp_le)
    also have "\<dots> \<le> of_int a / of_int b"
      using bitlen_powi(2) [OF b] a b by (simp add: frac_le)
    finally show ?thesis by (simp add: q)
  qed
  have hi: "q < 2 powi (?d + 1)"
  proof -
    have "q = of_int a / of_int b" by (rule q)
    also have "\<dots> < 2 powi bitlen a / of_int b"
      using bitlen_powi(2) [OF a] b by (simp add: divide_strict_right_mono)
    also have "\<dots> \<le> 2 powi bitlen a / 2 powi (bitlen b - 1)"
      using bitlen_powi(1) [OF b] by (simp add: frac_le two_powi_pos less_imp_le)
    also have "\<dots> = 2 powi (?d + 1)"
      by (simp add: two_powi_diff [symmetric] algebra_simps)
    finally show ?thesis .
  qed
  show "2 powi ilog2 q \<le> q"
    using lo by (simp add: ilog2_def ab Let_def)
  show "q < 2 powi (ilog2 q + 1)"
    using hi by (auto simp: ilog2_def ab Let_def not_le)
qed

lemma ilog2_unique:
  assumes "2 powi e \<le> q" and "q < 2 powi (e + 1)"
  shows "ilog2 q = e"
proof -
  have q: "0 < q"
    using two_powi_pos assms(1) by (rule less_le_trans)
  from ilog2_bounds [OF q] assms
  have "(2::rat) powi ilog2 q < 2 powi (e + 1)" and "(2::rat) powi e < 2 powi (ilog2 q + 1)"
    by simp_all
  then have "ilog2 q < e + 1" and "e < ilog2 q + 1"
    by (simp_all only: two_powi_less_iff)
  then show ?thesis by simp
qed

lemma rint_of_int: "rint (of_int m) = m"
  by (simp add: rint_def)

lemma rint_near: "\<bar>of_int (rint q) - q\<bar> \<le> 1 / 2"
proof -
  have "of_int \<lfloor>q\<rfloor> \<le> q" and "q < of_int \<lfloor>q\<rfloor> + 1"
    by linarith+
  then show ?thesis
    by (auto simp: rint_def Let_def)
qed

lemma rint_eval: "of_int m - 1 / 2 < x \<Longrightarrow> x < of_int m + 1 / 2 \<Longrightarrow> rint x = m"
proof -
  assume a: "of_int m - 1 / 2 < x" "x < of_int m + 1 / 2"
  have "\<bar>(of_int (rint x) :: rat) - of_int m\<bar> < 1"
    using rint_near [of x] a by linarith
  then have "\<bar>(of_int (rint x - m) :: rat)\<bar> < 1"
    by simp
  then have "\<bar>rint x - m\<bar> < 1"
    by (metis of_int_abs of_int_less_1_iff)
  then show ?thesis by simp
qed

text \<open>
  A positive number in the normal range is rounded with a relative error of \<open>2 ^ -53\<close>
  at most.
\<close>

lemma f64_normal:
  assumes lo: "2 powi (- 1022) \<le> q" and hi: "q \<le> 2 powi 1000"
  shows "\<exists>r. f64 q = Fin r \<and> \<bar>r - q\<bar> \<le> q / 2 ^ 53 \<and> 0 \<le> r"
proof -
  have q: "0 < q"
    using two_powi_pos lo by (rule less_le_trans)
  define e where "e = max (ilog2 \<bar>q\<bar>) (- 1022)"
  define u :: rat where "u = 2 powi (e - 52)"
  define r where "r = of_int (rint (q / u)) * u"
  have u: "0 < u"
    by (simp add: u_def two_powi_pos)
  have "2 powi e \<le> q"
    using ilog2_bounds(1) [OF q] lo q by (simp add: e_def max_def)
  then have uq: "u * 2 ^ 52 \<le> q"
    by (simp add: u_def two_powi_diff)
  have "r - q = (of_int (rint (q / u)) - q / u) * u"
    using u by (simp add: r_def left_diff_distrib)
  then have "\<bar>r - q\<bar> = \<bar>of_int (rint (q / u)) - q / u\<bar> * u"
    using u by (simp add: abs_mult)
  also have "\<dots> \<le> (1 / 2) * u"
    using rint_near [of "q / u"] u by (simp add: mult_right_mono)
  finally have d: "\<bar>r - q\<bar> \<le> u / 2"
    by simp
  have "u / 2 = u * 2 ^ 52 / 2 ^ 53"
    by simp
  also have "\<dots> \<le> q / 2 ^ 53"
    using uq by (simp only: divide_right_mono zero_le_numeral zero_le_power)
  finally have e53: "u / 2 \<le> q / 2 ^ 53" .
  with d have err: "\<bar>r - q\<bar> \<le> q / 2 ^ 53"
    by simp
  have "q / 2 ^ 53 \<le> q"
    using q by (simp add: divide_le_eq)
  with err q have r0: "0 \<le> r" and r2: "r \<le> 2 * q"
    by linarith+
  have "2 * q \<le> 2 powi 1001"
    using hi two_powi_add [of 1000 1] by simp
  also have "\<dots> < 2 powi 1024"
    by (rule two_powi_less) simp
  finally have "\<bar>r\<bar> < 2 powi 1024"
    using r0 r2 by simp
  moreover have aq: "\<bar>q\<bar> = q"
    using q by simp
  ultimately have "f64 q = Fin r"
    using q unfolding f64_def Let_def r_def u_def e_def aq
    by (simp add: not_le del: power_int_numeral)
  with err r0 show ?thesis
    by blast
qed

lemma f64_zero: "f64 0 = Fin 0"
  by (simp add: f64_def)

text \<open>The float of a number whose exponent and rounded significand are known.\<close>

lemma f64_eval:
  assumes lo: "2 powi e \<le> \<bar>q\<bar>" and hi: "\<bar>q\<bar> < 2 powi (e + 1)"
    and e: "- 1022 \<le> e" "e \<le> 1022"
    and m: "rint (q / 2 powi (e - 52)) = m"
  shows "f64 q = Fin (of_int m * 2 powi (e - 52))"
proof -
  define u :: rat where "u = 2 powi (e - 52)"
  have u: "0 < u"
    by (simp add: u_def two_powi_pos)
  have "0 < \<bar>q\<bar>"
    using two_powi_pos lo by (rule less_le_trans)
  then have q0: "q \<noteq> 0"
    by simp
  have il: "max (ilog2 \<bar>q\<bar>) (- 1022) = e"
    using ilog2_unique [OF lo hi] e by simp
  have "\<bar>q\<bar> / u < 2 powi (e + 1) / u"
    using hi u by (simp add: divide_strict_right_mono)
  also have "\<dots> = 2 powi 53"
    unfolding u_def two_powi_diff [symmetric] by simp
  finally have qu: "\<bar>q / u\<bar> < 2 powi 53"
    using u by simp
  have "\<bar>of_int m - q / u\<bar> \<le> 1 / 2"
    using rint_near [of "q / u"] m by (simp add: u_def)
  with qu have "\<bar>(of_int m :: rat)\<bar> < 2 powi 53 + 1 / 2"
    by linarith
  then have "\<bar>(of_int m :: rat)\<bar> < of_int (2 ^ 53) + 1 / 2"
    by simp
  then have "(of_int \<bar>m\<bar> :: rat) < of_int (2 ^ 53 + 1)"
    by (simp only: of_int_abs of_int_add of_int_1)
  then have "\<bar>m\<bar> < 2 ^ 53 + 1"
    by (simp only: of_int_less_iff)
  then have "\<bar>m\<bar> \<le> 2 ^ 53"
    by simp
  then have "(of_int \<bar>m\<bar> :: rat) \<le> of_int (2 ^ 53)"
    by (simp only: of_int_le_iff)
  then have "\<bar>(of_int m :: rat)\<bar> \<le> 2 powi 53"
    by simp
  then have "\<bar>of_int m * u\<bar> \<le> 2 powi 53 * u"
    using u by (simp add: abs_mult mult_right_mono)
  also have "\<dots> = 2 powi (e + 1)"
    unfolding u_def two_powi_add [symmetric] by (simp add: add.commute)
  also have "\<dots> < 2 powi 1024"
    using e by (intro two_powi_less) simp
  finally have "\<bar>of_int m * u\<bar> < 2 powi 1024" .
  then show ?thesis
    using q0 m unfolding f64_def Let_def il u_def
    by (simp add: not_le del: power_int_numeral)
qed

text \<open>An integer below \<open>2 ^ 53\<close> is a float.\<close>

lemma f64_int_exact:
  assumes "0 \<le> n" and "n < 2 ^ 53"
  shows "f64 (of_int n) = Fin (of_int n)"
proof (cases "n = 0")
  case True
  then show ?thesis by (simp add: f64_zero)
next
  case False
  with assms have n: "0 < n" by simp
  define q :: rat where "q = of_int n"
  have q1: "1 \<le> q"
    using n by (simp add: q_def)
  then have q: "0 < q" by simp
  define e where "e = ilog2 q"
  have "q < of_int (2 ^ 53)"
    unfolding q_def using assms(2) by (simp only: of_int_less_iff)
  then have q53: "q < 2 powi 53" by simp
  have "(2::rat) powi e < 2 powi 53"
    using ilog2_bounds(1) [OF q] q53 by (simp add: e_def)
  then have e53: "e < 53"
    by (simp only: two_powi_less_iff)
  have "(2::rat) powi 0 < 2 powi (e + 1)"
    using ilog2_bounds(2) [OF q] q1 by (simp add: e_def)
  then have e0: "0 \<le> e"
    by (simp only: two_powi_less_iff)
  define k where "k = nat (52 - e)"
  have ek: "e - 52 = - int k"
    using e53 by (simp add: k_def)
  have u: "(2::rat) powi (e - 52) = 1 / 2 ^ k"
    unfolding ek by (simp add: power_int_minus_divide)
  have "q / 2 powi (e - 52) = of_int (n * 2 ^ k)"
    by (simp add: u q_def)
  then have "rint (q / 2 powi (e - 52)) = n * 2 ^ k"
    by (simp only: rint_of_int)
  with ilog2_bounds [OF q] e0 e53
  have "f64 q = Fin (of_int (n * 2 ^ k) * 2 powi (e - 52))"
    by (intro f64_eval) (simp_all add: e_def abs_of_pos [OF q])
  then show ?thesis
    by (simp add: u q_def)
qed

lemma rint_nonneg: "0 \<le> x \<Longrightarrow> 0 \<le> rint x"
proof -
  assume "0 \<le> x"
  with rint_near [of x] have "(of_int (- 1) :: rat) < of_int (rint x)"
    by (simp only: of_int_minus of_int_1)
  then have "- 1 < rint x"
    by (simp only: of_int_less_iff)
  then show ?thesis by simp
qed

lemma f64_range:
  assumes lo: "1 / 2 ^ 60 \<le> q" and hi: "q \<le> 2 ^ 20"
  shows "\<exists>r. f64 q = Fin r \<and> \<bar>r - q\<bar> \<le> q / 2 ^ 53 \<and> q / 2 \<le> r \<and> r \<le> 2 * q"
proof -
  have "(2::rat) powi (- 1022) \<le> 2 powi (- 60)"
    by (rule two_powi_mono) simp
  also have "\<dots> = 1 / 2 ^ 60"
    by (simp add: power_int_minus_divide)
  finally have l: "2 powi (- 1022) \<le> q"
    using lo by simp
  have "(2::rat) ^ 20 = 2 powi 20"
    by simp
  also have "\<dots> \<le> 2 powi 1000"
    by (rule two_powi_mono) simp
  finally have h: "q \<le> 2 powi 1000"
    using hi by simp
  from f64_normal [OF l h] obtain r where
    r: "f64 q = Fin r" "\<bar>r - q\<bar> \<le> q / 2 ^ 53"
    by blast
  have q: "0 < q"
    using lo by (rule less_le_trans [rotated]) simp
  then have "q / 2 ^ 53 \<le> q / 2"
    by (simp add: divide_le_eq)
  with r(2) q have "q / 2 \<le> r" and "r \<le> 2 * q"
    by linarith+
  with r show ?thesis
    by blast
qed

text \<open>
  A percentage of line 78 is within 0.05, and the rounding errors of its five float
  operations, of the exact share.
\<close>

lemma percentage_near:
  fixes c n :: nat
  assumes c: "0 < c" and cn: "c \<le> n" and n: "n < 2 ^ 53"
  shows "\<exists>p. f64_round (f64_mul (f64_truediv (int c) (int n)) 100) 1 = Fin p \<and>
             \<bar>p - of_nat c / of_nat n * 100\<bar> \<le> 1 / 20 + 1 / 10 ^ 12"
proof -
  define x :: rat where "x = of_nat c / of_nat n"
  have n0: "0 < n"
    using c cn by simp
  have "int n < 2 ^ 53" and "int c < 2 ^ 53"
    using cn n by simp_all
  then have "f64 (of_int (int c)) = Fin (of_int (int c))"
    and "f64 (of_int (int n)) = Fin (of_int (int n))"
    by (simp_all only: f64_int_exact of_nat_0_le_iff)
  then have ci: "f64_of_int (int c) = Fin (of_nat c)"
    and ni: "f64_of_int (int n) = Fin (of_nat n)"
    by (simp_all add: f64_of_int_def)
  have h: "f64_of_int 100 = Fin 100" and t: "f64_of_int 10 = Fin 10"
    using f64_int_exact [of 100] f64_int_exact [of 10] by (simp_all add: f64_of_int_def)
  have x1: "x \<le> 1"
    using cn n0 by (simp add: x_def)
  have "(1::rat) \<le> of_nat c" and "(of_nat n :: rat) < of_nat (2 ^ 53)"
    using c n by (simp_all only: of_nat_less_iff One_nat_def[symmetric])
  then have x0: "1 / 2 ^ 53 \<le> x"
    using n0 by (simp add: x_def field_simps) 
  from f64_range [of x] x0 x1 obtain r1 where
    r1: "f64 x = Fin r1" "\<bar>r1 - x\<bar> \<le> x / 2 ^ 53" "x / 2 \<le> r1" "r1 \<le> 2 * x"
    by auto
  from f64_range [of "r1 * 100"] r1(3,4) x0 x1 obtain r2 where
    r2: "f64 (r1 * 100) = Fin r2" "\<bar>r2 - r1 * 100\<bar> \<le> r1 * 100 / 2 ^ 53"
      "r1 * 100 / 2 \<le> r2" "r2 \<le> 2 * (r1 * 100)"
    by auto
  from f64_range [of "r2 * 10"] r2(3,4) r1(3,4) x0 x1 obtain r3 where
    r3: "f64 (r2 * 10) = Fin r3" "\<bar>r3 - r2 * 10\<bar> \<le> r2 * 10 / 2 ^ 53"
      "r2 * 10 / 2 \<le> r3" "r3 \<le> 2 * (r2 * 10)"
    by auto
  define k where "k = rint r3"
  have r3b: "0 \<le> r3" "r3 \<le> 8000"
    using r3(3,4) r2(3,4) r1(3,4) x0 x1 by simp_all
  have k0: "0 \<le> k"
    using r3b(1) by (simp add: k_def rint_nonneg)
  have kr: "\<bar>of_int k - r3\<bar> \<le> 1 / 2"
    unfolding k_def by (rule rint_near)
  with r3b have "(of_int k :: rat) < 8001"
    by linarith
  then have k1: "k < 8001"
    by simp
  then have kf: "f64 (of_int k) = Fin (of_int k)"
    using k0 by (intro f64_int_exact) simp_all
  have "\<exists>p. f64 (of_int k / 10) = Fin p \<and> \<bar>p - of_int k / 10\<bar> \<le> 801 / 2 ^ 53"
  proof (cases "k = 0")
    case True
    then show ?thesis by (simp add: f64_zero)
  next
    case False
    with k0 have "1 \<le> k" by simp
    then have "(of_int 1 :: rat) \<le> of_int k"
      by (simp only: of_int_le_iff)
    moreover have "(of_int k :: rat) < of_int 8001"
      using k1 by (simp only: of_int_less_iff)
    ultimately have kk: "(1::rat) \<le> of_int k" "(of_int k :: rat) < 8001"
      by simp_all
    from f64_range [of "of_int k / 10"] kk obtain p where
      "f64 (of_int k / 10) = Fin p" "\<bar>p - of_int k / 10\<bar> \<le> of_int k / 10 / 2 ^ 53"
      by auto
    with kk show ?thesis
      by (intro exI [of _ p]) simp
  qed
  then obtain p where p: "f64 (of_int k / 10) = Fin p" "\<bar>p - of_int k / 10\<bar> \<le> 801 / 2 ^ 53"
    by blast
  have "f64_round (f64_mul (f64_truediv (int c) (int n)) 100) 1 = Fin p"
    using n0 r1(1) r2(1) r3(1) kf p(1)
    by (simp add: f64_round_def f64_mul_def f64_truediv_def f64_div_def f64_times_def
        f64_rint_def ci ni h t x_def [symmetric] k_def [symmetric] Let_def)
  moreover have "\<bar>p - x * 100\<bar> \<le> 1 / 20 + 1 / 10 ^ 12"
  proof -
    define d :: rat where "d = 1 / 2 ^ 53"
    have d: "0 \<le> d" "1501 * d \<le> 1 / 10 ^ 12"
      by (simp_all add: d_def)
    have x0': "0 \<le> x"
      using x0 by (rule order_trans [rotated]) simp
    have b1: "r1 \<le> 2" and b2: "r2 \<le> 400"
      using r1(4) r2(4) x1 by linarith+
    have "x / 2 ^ 53 \<le> 1 / 2 ^ 53"
      using x1 by (simp only: divide_right_mono zero_le_numeral zero_le_power)
    with r1(2) have a1: "\<bar>r1 - x\<bar> \<le> d"
      by (simp only: d_def)
    have "r1 * 100 / 2 ^ 53 \<le> 200 / 2 ^ 53"
      using b1 by (intro divide_right_mono) simp_all
    with r2(2) have a2: "\<bar>r2 - r1 * 100\<bar> \<le> 200 * d"
      by (simp only: d_def times_divide_eq_right mult_1_right)
    have "r2 * 10 / 2 ^ 53 \<le> 4000 / 2 ^ 53"
      using b2 by (intro divide_right_mono) simp_all
    with r3(2) have a3: "\<bar>r3 - r2 * 10\<bar> \<le> 4000 * d"
      by (simp only: d_def times_divide_eq_right mult_1_right)
    have a4: "\<bar>p - of_int k / 10\<bar> \<le> 801 * d"
      using p(2) by (simp only: d_def times_divide_eq_right mult_1_right)
    from a1 a2 a3 a4 kr d show ?thesis
      by linarith
  qed
  ultimately show ?thesis
    unfolding x_def by blast
qed

text \<open>
  The percentages of 1 of 3, 23 of 80, 49 of 80 and 57 of 80 rows: the floats nearest to
  33.3, 28.7, 61.3 and 71.2. In exact arithmetic 28.75 and 61.25 are ties; the floats
  that line 78 reaches before rounding are 28.749999999999996 and 61.25000000000001.
\<close>

lemma f64_small_ints:
  "f64 1 = Fin 1"
  "f64 3 = Fin 3"
  "f64 10 = Fin 10"
  "f64 23 = Fin 23"
  "f64 49 = Fin 49"
  "f64 57 = Fin 57"
  "f64 80 = Fin 80"
  "f64 100 = Fin 100"
  "f64 287 = Fin 287"
  "f64 333 = Fin 333"
  "f64 613 = Fin 613"
  "f64 712 = Fin 712"
  using f64_int_exact [of 1] f64_int_exact [of 3] f64_int_exact [of 10] f64_int_exact [of 23]
    f64_int_exact [of 49] f64_int_exact [of 57] f64_int_exact [of 80] f64_int_exact [of 100]
    f64_int_exact [of 287] f64_int_exact [of 333] f64_int_exact [of 613] f64_int_exact [of 712]
  by simp_all

lemma f64_1_3_share:
  "f64 (1 / 3)
     = Fin (6004799503160661 / 18014398509481984)"
proof -
  have "rint (1 / 3 / 2 powi (- 2 - 52))
          = 6004799503160661"
    by (rule rint_eval) simp_all
  then have "f64 (1 / 3)
               = Fin (of_int 6004799503160661 * 2 powi (- 2 - 52))"
    by (intro f64_eval) simp_all
  then show ?thesis
    by simp
qed

lemma f64_1_3_times_100:
  "f64 (150119987579016525 / 4503599627370496)
     = Fin (2345624805922133 / 70368744177664)"
proof -
  have "rint (150119987579016525 / 4503599627370496 / 2 powi (5 - 52))
          = 4691249611844266"
    by (rule rint_eval) simp_all
  then have "f64 (150119987579016525 / 4503599627370496)
               = Fin (of_int 4691249611844266 * 2 powi (5 - 52))"
    by (intro f64_eval) simp_all
  then show ?thesis
    by simp
qed

lemma f64_1_3_times_10:
  "f64 (11728124029610665 / 35184372088832)
     = Fin (1466015503701333 / 4398046511104)"
proof -
  have "rint (11728124029610665 / 35184372088832 / 2 powi (8 - 52))
          = 5864062014805332"
    by code_simp
  then have "f64 (11728124029610665 / 35184372088832)
               = Fin (of_int 5864062014805332 * 2 powi (8 - 52))"
    by (intro f64_eval) simp_all
  then show ?thesis
    by simp
qed

lemma rint_1_3: "rint (1466015503701333 / 4398046511104) = 333"
  by code_simp

lemma f64_1_3_tenths:
  "f64 (333 / 10)
     = Fin (2343279181116211 / 70368744177664)"
proof -
  have "rint (333 / 10 / 2 powi (5 - 52))
          = 4686558362232422"
    by (rule rint_eval) simp_all
  then have "f64 (333 / 10)
               = Fin (of_int 4686558362232422 * 2 powi (5 - 52))"
    by (intro f64_eval) simp_all
  then show ?thesis
    by simp
qed

lemma percentage_1_3:
  "f64_round (f64_mul (f64_truediv 1 3) 100) 1 = Fin (2343279181116211 / 70368744177664)"
  "f64_truediv 333 10 = Fin (2343279181116211 / 70368744177664)"
  by (simp_all add: f64_round_def f64_mul_def f64_truediv_def f64_div_def f64_times_def
      f64_rint_def f64_of_int_def f64_small_ints f64_1_3_share f64_1_3_times_100
      f64_1_3_times_10 rint_1_3 f64_1_3_tenths)

lemma f64_23_80_share:
  "f64 (23 / 80)
     = Fin (2589569785738035 / 9007199254740992)"
proof -
  have "rint (23 / 80 / 2 powi (- 2 - 52))
          = 5179139571476070"
    by (rule rint_eval) simp_all
  then have "f64 (23 / 80)
               = Fin (of_int 5179139571476070 * 2 powi (- 2 - 52))"
    by (intro f64_eval) simp_all
  then show ?thesis
    by simp
qed

lemma f64_23_80_times_100:
  "f64 (64739244643450875 / 2251799813685248)
     = Fin (8092405580431359 / 281474976710656)"
proof -
  have "rint (64739244643450875 / 2251799813685248 / 2 powi (4 - 52))
          = 8092405580431359"
    by (rule rint_eval) simp_all
  then have "f64 (64739244643450875 / 2251799813685248)
               = Fin (of_int 8092405580431359 * 2 powi (4 - 52))"
    by (intro f64_eval) simp_all
  then show ?thesis
    by simp
qed

lemma f64_23_80_times_10:
  "f64 (40462027902156795 / 140737488355328)
     = Fin (5057753487769599 / 17592186044416)"
proof -
  have "rint (40462027902156795 / 140737488355328 / 2 powi (8 - 52))
          = 5057753487769599"
    by (rule rint_eval) simp_all
  then have "f64 (40462027902156795 / 140737488355328)
               = Fin (of_int 5057753487769599 * 2 powi (8 - 52))"
    by (intro f64_eval) simp_all
  then show ?thesis
    by simp
qed

lemma rint_23_80: "rint (5057753487769599 / 17592186044416) = 287"
  by code_simp

lemma f64_23_80_tenths:
  "f64 (287 / 10)
     = Fin (8078331831595827 / 281474976710656)"
proof -
  have "rint (287 / 10 / 2 powi (4 - 52))
          = 8078331831595827"
    by (rule rint_eval) simp_all
  then have "f64 (287 / 10)
               = Fin (of_int 8078331831595827 * 2 powi (4 - 52))"
    by (intro f64_eval) simp_all
  then show ?thesis
    by simp
qed

lemma percentage_23_80:
  "f64_round (f64_mul (f64_truediv 23 80) 100) 1 = Fin (8078331831595827 / 281474976710656)"
  "f64_truediv 287 10 = Fin (8078331831595827 / 281474976710656)"
  by (simp_all add: f64_round_def f64_mul_def f64_truediv_def f64_div_def f64_times_def
      f64_rint_def f64_of_int_def f64_small_ints f64_23_80_share f64_23_80_times_100
      f64_23_80_times_10 rint_23_80 f64_23_80_tenths)

lemma f64_49_80_share:
  "f64 (49 / 80)
     = Fin (2758454771764429 / 4503599627370496)"
proof -
  have "rint (49 / 80 / 2 powi (- 1 - 52))
          = 5516909543528858"
    by (rule rint_eval) simp_all
  then have "f64 (49 / 80)
               = Fin (of_int 5516909543528858 * 2 powi (- 1 - 52))"
    by (intro f64_eval) simp_all
  then show ?thesis
    by simp
qed

lemma f64_49_80_times_100:
  "f64 (68961369294110725 / 1125899906842624)
     = Fin (8620171161763841 / 140737488355328)"
proof -
  have "rint (68961369294110725 / 1125899906842624 / 2 powi (5 - 52))
          = 8620171161763841"
    by (rule rint_eval) simp_all
  then have "f64 (68961369294110725 / 1125899906842624)
               = Fin (of_int 8620171161763841 * 2 powi (5 - 52))"
    by (intro f64_eval) simp_all
  then show ?thesis
    by simp
qed

lemma f64_49_80_times_10:
  "f64 (43100855808819205 / 70368744177664)
     = Fin (5387606976102401 / 8796093022208)"
proof -
  have "rint (43100855808819205 / 70368744177664 / 2 powi (9 - 52))
          = 5387606976102401"
    by (rule rint_eval) simp_all
  then have "f64 (43100855808819205 / 70368744177664)
               = Fin (of_int 5387606976102401 * 2 powi (9 - 52))"
    by (intro f64_eval) simp_all
  then show ?thesis
    by simp
qed

lemma rint_49_80: "rint (5387606976102401 / 8796093022208) = 613"
  by code_simp

lemma f64_49_80_tenths:
  "f64 (613 / 10)
     = Fin (4313604018090803 / 70368744177664)"
proof -
  have "rint (613 / 10 / 2 powi (5 - 52))
          = 8627208036181606"
    by (rule rint_eval) simp_all
  then have "f64 (613 / 10)
               = Fin (of_int 8627208036181606 * 2 powi (5 - 52))"
    by (intro f64_eval) simp_all
  then show ?thesis
    by simp
qed

lemma percentage_49_80:
  "f64_round (f64_mul (f64_truediv 49 80) 100) 1 = Fin (4313604018090803 / 70368744177664)"
  "f64_truediv 613 10 = Fin (4313604018090803 / 70368744177664)"
  by (simp_all add: f64_round_def f64_mul_def f64_truediv_def f64_div_def f64_times_def
      f64_rint_def f64_of_int_def f64_small_ints f64_49_80_share f64_49_80_times_100
      f64_49_80_times_10 rint_49_80 f64_49_80_tenths)

lemma f64_57_80_share:
  "f64 (57 / 80)
     = Fin (6417629469002957 / 9007199254740992)"
proof -
  have "rint (57 / 80 / 2 powi (- 1 - 52))
          = 6417629469002957"
    by (rule rint_eval) simp_all
  then have "f64 (57 / 80)
               = Fin (of_int 6417629469002957 * 2 powi (- 1 - 52))"
    by (intro f64_eval) simp_all
  then show ?thesis
    by simp
qed

lemma f64_57_80_times_100:
  "f64 (160440736725073925 / 2251799813685248)
     = Fin (285 / 4)"
proof -
  have "rint (160440736725073925 / 2251799813685248 / 2 powi (6 - 52))
          = 5013773022658560"
    by (rule rint_eval) simp_all
  then have "f64 (160440736725073925 / 2251799813685248)
               = Fin (of_int 5013773022658560 * 2 powi (6 - 52))"
    by (intro f64_eval) simp_all
  then show ?thesis
    by simp
qed

lemma f64_57_80_times_10:
  "f64 (1425 / 2)
     = Fin (1425 / 2)"
proof -
  have "rint (1425 / 2 / 2 powi (9 - 52))
          = 6267216278323200"
    by (rule rint_eval) simp_all
  then have "f64 (1425 / 2)
               = Fin (of_int 6267216278323200 * 2 powi (9 - 52))"
    by (intro f64_eval) simp_all
  then show ?thesis
    by simp
qed

lemma rint_57_80: "rint (1425 / 2) = 712"
  by code_simp

lemma f64_57_80_tenths:
  "f64 (356 / 5)
     = Fin (5010254585449677 / 70368744177664)"
proof -
  have "rint (356 / 5 / 2 powi (6 - 52))
          = 5010254585449677"
    by (rule rint_eval) simp_all
  then have "f64 (356 / 5)
               = Fin (of_int 5010254585449677 * 2 powi (6 - 52))"
    by (intro f64_eval) simp_all
  then show ?thesis
    by simp
qed

lemma percentage_57_80:
  "f64_round (f64_mul (f64_truediv 57 80) 100) 1 = Fin (5010254585449677 / 70368744177664)"
  "f64_truediv 712 10 = Fin (5010254585449677 / 70368744177664)"
  by (simp_all add: f64_round_def f64_mul_def f64_truediv_def f64_div_def f64_times_def
      f64_rint_def f64_of_int_def f64_small_ints f64_57_80_share f64_57_80_times_100
      f64_57_80_times_10 rint_57_80 f64_57_80_tenths)

subsection \<open>The sample data, evaluated\<close>

lemma extract_samples:
  "extract_reporter (Some ''Order 5 reported by Ann'') = ''Ann''"
  "extract_reporter (Some ''reported by Bob'') = ''Bob''"
  "extract_reporter (Some ''Box reported by Ann'') = ''Ann''"
  "extract_reporter (Some ''Again reported by Ann '') = ''Ann''"
  "extract_reporter (Some ''no reporter'') = ''Unknown''"
  by (simp_all add: extract_reporter_def reported_by_def match_at_def match_group_def
      dot_def at_dollar_def newline_def strip_def isspace_def)

lemma sample_table:
  "load_data sample_to_datetime sample_sheet =
     [sample_row ''Late'' (Some ''Order 5 reported by Ann'') ''Ann'' ''Wednesday'' 10 9,
      sample_row ''Undefined'' (Some ''reported by Bob'') ''Bob'' ''Thursday'' 11 14,
      sample_row ''Damaged'' (Some ''Box reported by Ann'') ''Ann'' ''Friday'' 12 8,
      sample_row ''Late'' (Some ''reported by Bob'') ''Bob'' ''Saturday'' 13 7,
      sample_row ''Late'' (Some ''Again reported by Ann '') ''Ann'' ''Sunday'' 14 1,
      sample_row ''Undefined'' (Some ''no reporter'') ''Unknown'' ''Monday'' 15 0]"
  by (simp add: load_data_def sample_sheet_def sample_raw_def sample_to_datetime_def
      pad_def dropna_def load_row_def sample_row_def fillna_def replace_value_def
      day_name_def extract_samples)

lemma str_nat_1: "str_nat (Suc 0) = ''1''"
  by code_simp

lemma percentage_1_3_Suc:
  "f64_round (f64_mul (f64_truediv 1 3) 100) (Suc 0)
     = Fin (2343279181116211 / 70368744177664)"
  using percentage_1_3(1) by simp

lemma sample_report:
  "category_report float64_ops sample_filtered =
     [\<lparr> Main_Category_grp = ''Damaged'', Report_Count = 1, Reporters = [(''Ann'', 1)],
        Percentage = Fin (2343279181116211 / 70368744177664), Top_Reporters = ''Ann (1)'' \<rparr>,
      \<lparr> Main_Category_grp = ''Late'', Report_Count = 1, Reporters = [(''Ann'', 1)],
        Percentage = Fin (2343279181116211 / 70368744177664), Top_Reporters = ''Ann (1)'' \<rparr>,
      \<lparr> Main_Category_grp = ''Undefined'', Report_Count = 1, Reporters = [(''Bob'', 1)],
        Percentage = Fin (2343279181116211 / 70368744177664), Top_Reporters = ''Bob (1)'' \<rparr>]"
  by (simp add: category_report_def category_agg_def groupby_Main_Category_def
      sample_filtered_def sample_row_def value_counts_def format_reporters_def
      total_reports_def float64_ops_def percentage_1_3_Suc str_nat_1)

lemma sample_agg:
  "category_agg (load_data sample_to_datetime sample_sheet) =
     [\<lparr> Main_Category_grp = ''Damaged'', Report_Count = 1, Reporters = [(''Ann'', 1)] \<rparr>,
      \<lparr> Main_Category_grp = ''Late'', Report_Count = 3,
        Reporters = [(''Ann'', 2), (''Bob'', 1)] \<rparr>,
      \<lparr> Main_Category_grp = ''Undefined'', Report_Count = 2,
        Reporters = [(''Bob'', 1), (''Unknown'', 1)] \<rparr>]"
  by (simp add: category_agg_def groupby_Main_Category_def sample_table sample_row_def
      value_counts_def)

subsection \<open>Filter\<close>

lemma select_map: "select df (map P df) = filter P df"
  by (induction df) (simp_all add: select_def)

lemma select_subset: "set (select df m) \<subseteq> set df"
  unfolding select_def by (auto elim: in_set_zipE)

lemma filtered_df_subset:
  "filtered_df df date_range category_filter = Inr filtered \<Longrightarrow> set filtered \<subseteq> set df"
  by (auto simp: filtered_df_def split: sum.splits dest: subsetD [OF select_subset])

lemma filtered_df_filter:
  "filtered_df df [start, stop] category_filter =
     Inr (filter
            (\<lambda>r. (case Date r of None \<Rightarrow> False | Some d \<Rightarrow> start \<le> d \<and> d \<le> stop) \<and>
                 Main_Category r \<in> set category_filter) df)"
proof -
  have "mask_and (mask_and (ge_date (map Date df) start) (le_date (map Date df) stop))
          (isin (map Main_Category df) category_filter)
        = map (\<lambda>r. (case Date r of None \<Rightarrow> False | Some d \<Rightarrow> start \<le> d \<and> d \<le> stop) \<and>
                    Main_Category r \<in> set category_filter) df"
    by (induction df)
      (simp_all add: mask_and_def ge_date_def le_date_def isin_def split: option.splits)
  then show ?thesis
    by (simp add: filtered_df_def getitem_def select_map)
qed

lemma sample_filter:
  "filtered_df (load_data sample_to_datetime sample_sheet) [10, 12]
     [''Late'', ''Undefined'', ''Damaged''] = Inr sample_filtered"
  by (simp add: filtered_df_filter sample_table sample_filtered_def sample_row_def)

text \<open>
  C4: for a date range of two dates \<open>start\<close> and \<open>stop\<close> and a list of selected
  categories, the filter returns the rows of the table, in their order and unchanged,
  whose date is in the closed range and whose category is selected, and no other row.
\<close>

theorem filtered_df_exact:
  "filtered_df df [start, stop] category_filter =
     Inr (filter
            (\<lambda>r. (case Date r of None \<Rightarrow> False | Some d \<Rightarrow> start \<le> d \<and> d \<le> stop) \<and>
                 Main_Category r \<in> set category_filter) df)"
  by (rule filtered_df_filter)

theorem filtered_df_exact_witness:
  "filtered_df (load_data sample_to_datetime sample_sheet) [10, 12] [''Late'', ''Damaged'']
     = Inr [sample_filtered ! 0, sample_filtered ! 2]"
  using filtered_df_exact [of "load_data sample_to_datetime sample_sheet" 10 12
      "[''Late'', ''Damaged'']"]
  by (simp add: sample_table sample_filtered_def sample_row_def)

lemma category_report_Nil: "category_report ops [] = []"
  by (simp add: category_report_def category_agg_def groupby_Main_Category_def)

text \<open>
  C5: when no row of the table has its date in the range, the filter returns the empty
  table and raises nothing, the total is zero and the category report is empty, whatever
  the arithmetic of the percentage column does: no percentage is computed.
\<close>

theorem empty_range_empty_result:
  "\<forall>r\<in>set df. \<not> (case Date r of None \<Rightarrow> False | Some d \<Rightarrow> start \<le> d \<and> d \<le> stop) \<Longrightarrow>
   (case filtered_df df [start, stop] category_filter of
      Inl e \<Rightarrow> None
    | Inr filtered \<Rightarrow>
        Some (filtered, total_reports filtered, category_report ops filtered))
   = Some ([], 0, [])"
proof -
  assume "\<forall>r\<in>set df.
            \<not> (case Date r of None \<Rightarrow> False | Some d \<Rightarrow> start \<le> d \<and> d \<le> stop)"
  then have "filter
      (\<lambda>r. (case Date r of None \<Rightarrow> False | Some d \<Rightarrow> start \<le> d \<and> d \<le> stop) \<and>
           Main_Category r \<in> set category_filter) df = []"
    by (simp add: filter_empty_conv)
  then show ?thesis
    by (simp add: filtered_df_filter total_reports_def category_report_Nil)
qed

theorem empty_range_empty_result_witness:
  "filter (\<lambda>r. case Date r of None \<Rightarrow> False | Some d \<Rightarrow> 20 \<le> d \<and> d \<le> 30)
     (load_data sample_to_datetime sample_sheet) = [] \<and>
   (case filtered_df (load_data sample_to_datetime sample_sheet) [20, 30] [''Late''] of
      Inl e \<Rightarrow> None
    | Inr filtered \<Rightarrow>
        Some (filtered, total_reports filtered, category_report float64_ops filtered))
   = Some ([], 0, [])"
proof -
  have h: "\<forall>r\<in>set (load_data sample_to_datetime sample_sheet).
             \<not> (case Date r of None \<Rightarrow> False | Some d \<Rightarrow> 20 \<le> d \<and> d \<le> 30)"
    by (simp add: sample_table sample_row_def)
  have "filter (\<lambda>r. case Date r of None \<Rightarrow> False | Some d \<Rightarrow> 20 \<le> d \<and> d \<le> 30)
     (load_data sample_to_datetime sample_sheet) = []"
    by (simp add: sample_table sample_row_def)
  with empty_range_empty_result
    [where ops = float64_ops and category_filter = "[''Late'']", OF h]
  show ?thesis
    by simp
qed

subsection \<open>Loader\<close>

lemma load_row_category:
  "Main_Category (load_row (r, t)) =
     (case Main_Category_Name r of
        None \<Rightarrow> ''Undefined''
      | Some c \<Rightarrow> if c = [] then ''Undefined'' else c)"
  by (simp add: load_row_def fillna_def replace_value_def split: option.splits)

text \<open>
  C6: the categories of the loaded table are those of the rows the loader keeps, in
  order, with a missing and an empty category replaced by \<open>Undefined\<close> and every other
  category as it was; no loaded row has an empty category.
\<close>

theorem load_data_category_normalized:
  "map Main_Category (load_data to_datetime raw) =
     map (\<lambda>(r, t). case Main_Category_Name r of
                      None \<Rightarrow> ''Undefined''
                    | Some c \<Rightarrow> if c = [] then ''Undefined'' else c)
       (dropna (zip raw (pad (length raw) (to_datetime (map Ticket_Created_At_eet raw)))))
   \<and> [] \<notin> set (map Main_Category (load_data to_datetime raw))"
  by (auto simp: load_data_def Let_def load_row_category split: option.splits if_splits)

theorem load_data_category_normalized_witness:
  "map Main_Category_Name sample_sheet =
     [Some ''Late'', None, Some ''Damaged'', Some ''Damaged'', Some ''Late'', Some ''Late'',
      Some []] \<and>
   map Main_Category (load_data sample_to_datetime sample_sheet) =
     [''Late'', ''Undefined'', ''Damaged'', ''Late'', ''Late'', ''Undefined'']"
  using load_data_category_normalized [of sample_to_datetime sample_sheet]
  by (simp add: sample_sheet_def sample_raw_def sample_to_datetime_def pad_def dropna_def)

lemma length_pad: "length (pad n xs) = n"
  by (simp add: pad_def)

lemma load_data_times:
  "map Report_Time (load_data to_datetime raw) =
     filter (\<lambda>t. t \<noteq> None) (pad (length raw) (to_datetime (map Ticket_Created_At_eet raw)))"
proof -
  have z: "map (Report_Time \<circ> load_row) (dropna (zip xs ts)) = filter (\<lambda>t. t \<noteq> None) ts"
    if "length xs = length ts" for xs :: "'a raw_row list" and ts
    using that by (induction xs ts rule: list_induct2) (simp_all add: dropna_def load_row_def)
  show ?thesis
    by (simp add: load_data_def Let_def z length_pad)
qed

lemma load_data_valid: "r \<in> set (load_data to_datetime raw) \<Longrightarrow> Report_Time r \<noteq> None"
proof -
  assume "r \<in> set (load_data to_datetime raw)"
  then have "Report_Time r \<in> set (map Report_Time (load_data to_datetime raw))"
    by simp
  then show ?thesis
    unfolding load_data_times by simp
qed

text \<open>
  C8: the timestamps of the loaded table are the entries of the parsed column that are
  not NaT, in order, so the rows that do not parse are dropped and no error is raised;
  every loaded row has a timestamp and a date; so has every row of a filtered table, and
  every row of the exported detail frame has a cell in its \<open>Report_Time\<close> column. The
  category report holds counts only and no timestamp.
\<close>

theorem load_data_valid_timestamps:
  "map Report_Time (load_data to_datetime raw)
     = filter (\<lambda>t. t \<noteq> None)
         (pad (length raw) (to_datetime (map Ticket_Created_At_eet raw))) \<and>
   (\<forall>r\<in>set (load_data to_datetime raw). Report_Time r \<noteq> None \<and> Date r \<noteq> None) \<and>
   (\<forall>filtered. filtered_df (load_data to_datetime raw) date_range category_filter
        = Inr filtered \<longrightarrow>
      (\<forall>r\<in>set filtered. Report_Time r \<noteq> None) \<and>
      (\<forall>cells\<in>set (data (detailed_df filtered)).
         length cells = 6 \<and> cells ! 1 \<noteq> NA))"
proof (intro conjI allI impI)
  show "map Report_Time (load_data to_datetime raw)
     = filter (\<lambda>t. t \<noteq> None)
         (pad (length raw) (to_datetime (map Ticket_Created_At_eet raw)))"
    by (rule load_data_times)
next
  show "\<forall>r\<in>set (load_data to_datetime raw). Report_Time r \<noteq> None \<and> Date r \<noteq> None"
    by (auto simp: load_data_def Let_def dropna_def load_row_def)
next
  fix filtered
  assume "filtered_df (load_data to_datetime raw) date_range category_filter = Inr filtered"
  then have "set filtered \<subseteq> set (load_data to_datetime raw)"
    by (rule filtered_df_subset)
  then show v: "\<forall>r\<in>set filtered. Report_Time r \<noteq> None"
    using load_data_valid by blast
  then show "\<forall>cells\<in>set (data (detailed_df filtered)).
         length cells = 6 \<and> cells ! 1 \<noteq> NA"
    by (auto simp: detailed_df_def cell_of_def split: option.splits)
qed

theorem load_data_valid_timestamps_witness:
  "length sample_sheet = 7 \<and>
   length (load_data sample_to_datetime sample_sheet) = 6 \<and>
   filtered_df (load_data sample_to_datetime sample_sheet) [10, 12]
     [''Late'', ''Undefined'', ''Damaged''] = Inr sample_filtered \<and>
   Report_Time (sample_filtered ! 2) \<noteq> None \<and>
   (data (detailed_df sample_filtered) ! 2) ! 1 \<noteq> NA"
proof -
  have n: "length sample_sheet = 7"
    by (simp add: sample_sheet_def)
  have t: "length (load_data sample_to_datetime sample_sheet) = 6"
    by (simp add: sample_table)
  have r: "sample_filtered ! 2 \<in> set sample_filtered"
    by (simp add: sample_filtered_def)
  have c: "data (detailed_df sample_filtered) ! 2
             \<in> set (data (detailed_df sample_filtered))"
    by (simp add: sample_filtered_def detailed_df_def)
  from load_data_valid_timestamps
    [of sample_to_datetime sample_sheet "[10, 12]"
      "[''Late'', ''Undefined'', ''Damaged'']"] sample_filter
  have "(\<forall>r\<in>set sample_filtered. Report_Time r \<noteq> None) \<and>
        (\<forall>cells\<in>set (data (detailed_df sample_filtered)).
           length cells = 6 \<and> cells ! 1 \<noteq> NA)"
    by blast
  with r c have "Report_Time (sample_filtered ! 2) \<noteq> None"
    and "(data (detailed_df sample_filtered) ! 2) ! 1 \<noteq> NA"
    by blast+
  with n t sample_filter show ?thesis
    by blast
qed

subsection \<open>Aggregator: counts\<close>

lemma sum_list_insort_key:
  "sum_list (map g (insort_key f x ys)) = g x + sum_list (map g ys)"
  for g :: "'a \<Rightarrow> nat"
  by (induction ys) simp_all

lemma sum_list_sort_key: "sum_list (map g (sort_key f ys)) = sum_list (map g ys)"
  for g :: "'a \<Rightarrow> nat"
  by (induction ys) (simp_all add: sum_list_insort_key)

lemma sum_count_distinct:
  assumes "distinct ds" and "set ds = set xs"
  shows "sum_list (map (count_list xs) ds) = length xs"
proof -
  have "sum_list (map (count_list xs) ds) = sum (count_list xs) (set ds)"
    using assms(1) by (rule sum_list_distinct_conv_sum_set)
  also have "\<dots> = length xs"
    using assms(2) by (simp add: sum_count_set)
  finally show ?thesis .
qed

lemma value_counts_sum: "sum_list (map snd (value_counts xs)) = length xs"
proof -
  have "sum_list (map snd (value_counts xs))
        = sum_list (map (count_list xs) (rev (remdups (rev xs))))"
    by (simp add: value_counts_def sum_list_sort_key comp_def)
  also have "\<dots> = length xs"
    by (rule sum_count_distinct) simp_all
  finally show ?thesis .
qed

text \<open>
  C7: in every row of the category report, the counts of the reporter dictionary add up
  to \<open>Report_Count\<close>.
\<close>

theorem reporter_counts_sum:
  "\<forall>g\<in>set (category_report ops filtered).
     sum_list (map snd (Reporters g)) = Report_Count g"
  by (auto simp: category_report_def category_agg_def groupby_Main_Category_def
      value_counts_sum)

theorem reporter_counts_sum_witness:
  "Reporters (category_report float64_ops (load_data sample_to_datetime sample_sheet) ! 1)
     = [(''Ann'', 2), (''Bob'', 1)] \<and>
   Report_Count (category_report float64_ops (load_data sample_to_datetime sample_sheet) ! 1)
     = 3 \<and>
   sum_list (map snd
     (Reporters (category_report float64_ops (load_data sample_to_datetime sample_sheet) ! 1)))
     = Report_Count
         (category_report float64_ops (load_data sample_to_datetime sample_sheet) ! 1)"
proof -
  let ?r = "category_report float64_ops (load_data sample_to_datetime sample_sheet)"
  have "length ?r = 3"
    by (simp add: category_report_def sample_agg)
  then have "?r ! 1 \<in> set ?r"
    by simp
  with reporter_counts_sum [of float64_ops "load_data sample_to_datetime sample_sheet"]
  have s: "sum_list (map snd (Reporters (?r ! 1))) = Report_Count (?r ! 1)"
    by blast
  have "Reporters (?r ! 1) = [(''Ann'', 2), (''Bob'', 1)]" and "Report_Count (?r ! 1) = 3"
    by (simp_all add: category_report_def sample_agg)
  with s show ?thesis
    by simp
qed

subsection \<open>Aggregator: percentages\<close>

lemma category_report_keys:
  "map Main_Category_grp (category_report ops filtered)
     = sort (remdups (map Main_Category filtered))"
  by (simp add: category_report_def category_agg_def groupby_Main_Category_def comp_def)

lemma category_report_percentage:
  "map Percentage (category_report ops filtered)
     = map (\<lambda>k. f_round ops
                  (f_mul ops
                     (f_truediv ops
                        (int (length (filter (\<lambda>r. Main_Category r = k) filtered)))
                        (int (length filtered)))
                     100)
                  1)
         (sort (remdups (map Main_Category filtered)))"
  by (simp add: category_report_def category_agg_def groupby_Main_Category_def comp_def
      total_reports_def)

text \<open>
  C3: the category report has one row for each category present in the filtered table,
  and its percentage is the number of filtered rows of that category, divided by the
  number of filtered rows, times 100, rounded to one decimal, in the arithmetic of the
  percentage column, whichever it is. The table before the filter plays no part.
\<close>

theorem percentage_of_filtered_total:
  "set (map Main_Category_grp (category_report ops filtered))
     = Main_Category ` set filtered \<and>
   distinct (map Main_Category_grp (category_report ops filtered)) \<and>
   (\<forall>g\<in>set (category_report ops filtered).
      Percentage g =
        f_round ops
          (f_mul ops
             (f_truediv ops
                (int (length
                   (filter (\<lambda>r. Main_Category r = Main_Category_grp g) filtered)))
                (int (length filtered)))
             100)
          1)"
  unfolding category_report_keys
  by (auto simp: category_report_def category_agg_def groupby_Main_Category_def
      total_reports_def)

theorem percentage_of_filtered_total_witness:
  "length sample_filtered = 3 \<and>
   length (load_data sample_to_datetime sample_sheet) = 6 \<and>
   Main_Category_grp (category_report float64_ops sample_filtered ! 1) = ''Late'' \<and>
   Percentage (category_report float64_ops sample_filtered ! 1)
     = f64_round (f64_mul (f64_truediv 1 3) 100) 1 \<and>
   Percentage (category_report float64_ops sample_filtered ! 1)
     = Fin (2343279181116211 / 70368744177664) \<and>
   f64_truediv 333 10 = Fin (2343279181116211 / 70368744177664)"
proof -
  let ?g = "category_report float64_ops sample_filtered ! 1"
  have g: "?g \<in> set (category_report float64_ops sample_filtered)"
    by (simp add: sample_report)
  have k: "Main_Category_grp ?g = ''Late''"
    by (simp add: sample_report)
  have c: "length (filter (\<lambda>r. Main_Category r = ''Late'') sample_filtered) = 1"
    by (simp add: sample_filtered_def sample_row_def)
  have n: "length sample_filtered = 3"
    by (simp add: sample_filtered_def)
  from percentage_of_filtered_total [of float64_ops sample_filtered] g
  have "Percentage ?g =
      f_round float64_ops
        (f_mul float64_ops
           (f_truediv float64_ops
              (int (length (filter (\<lambda>r. Main_Category r = Main_Category_grp ?g)
                 sample_filtered)))
              (int (length sample_filtered)))
           100)
        1"
    by blast
  then have p: "Percentage ?g = f64_round (f64_mul (f64_truediv 1 3) 100) 1"
    unfolding k c n by (simp add: float64_ops_def)
  have "Percentage ?g = Fin (2343279181116211 / 70368744177664)"
    by (simp add: sample_report)
  with p k n show ?thesis
    by (simp add: sample_table percentage_1_3(2))
qed

lemma finite_values:
  "(\<And>k. k \<in> set ks \<Longrightarrow> \<exists>p. F k = Fin p \<and> \<bar>p - X k\<bar> \<le> e) \<Longrightarrow>
   \<exists>ps. map F ks = map Fin ps \<and> length ps = length ks \<and>
        \<bar>sum_list ps - sum_list (map X ks)\<bar> \<le> of_nat (length ks) * e"
  for X :: "'a \<Rightarrow> rat"
proof (induction ks)
  case Nil
  then show ?case by simp
next
  case (Cons k ks)
  from Cons.prems [of k] obtain p where p: "F k = Fin p" "\<bar>p - X k\<bar> \<le> e"
    by auto
  from Cons.IH Cons.prems obtain ps where
    ps: "map F ks = map Fin ps" "length ps = length ks"
      "\<bar>sum_list ps - sum_list (map X ks)\<bar> \<le> of_nat (length ks) * e"
    by auto
  have "\<bar>sum_list (p # ps) - sum_list (map X (k # ks))\<bar>
        = \<bar>(p - X k) + (sum_list ps - sum_list (map X ks))\<bar>"
    by simp
  also have "\<dots> \<le> \<bar>p - X k\<bar> + \<bar>sum_list ps - sum_list (map X ks)\<bar>"
    by (rule abs_triangle_ineq)
  also have "\<dots> \<le> e + of_nat (length ks) * e"
    using p(2) ps(3) by (rule add_mono)
  also have "\<dots> = of_nat (length (k # ks)) * e"
    by (simp add: algebra_simps)
  finally have "\<bar>sum_list (p # ps) - sum_list (map X (k # ks))\<bar>
      \<le> of_nat (length (k # ks)) * e" .
  with p(1) ps(1,2) show ?case
    by (intro exI [of _ "p # ps"]) simp
qed

lemma group_sizes_sum:
  "sum_list (map (\<lambda>k. length (filter (\<lambda>r. Main_Category r = k) filtered))
     (sort (remdups (map Main_Category filtered)))) = length filtered"
proof -
  have c: "length (filter (\<lambda>r. Main_Category r = k) filtered)
           = count_list (map Main_Category filtered) k" for k
    by (induction filtered) simp_all
  have "sum_list (map (count_list (map Main_Category filtered))
          (sort (remdups (map Main_Category filtered)))) = length (map Main_Category filtered)"
    by (rule sum_count_distinct) simp_all
  then show ?thesis
    by (simp add: c)
qed

lemma sum_list_shares:
  "sum_list (map (\<lambda>k. of_nat (c k) / n * 100) ks) = of_nat (sum_list (map c ks)) / n * 100"
  for n :: rat
  by (induction ks) (simp_all add: add_divide_distrib distrib_right)

lemma number_of_groups:
  "length (sort (remdups (map Main_Category filtered))) = card (Main_Category ` set filtered)"
proof -
  have "length (remdups (map Main_Category filtered))
        = card (set (remdups (map Main_Category filtered)))"
    by (rule distinct_card [symmetric]) simp
  then show ?thesis by simp
qed

text \<open>
  C2: for a filtered table that is not empty and has fewer than \<open>2 ^ 53\<close> rows, so that
  its counts are floats, the category report computed in float64 has one percentage for
  each category present, every percentage is a number, and their sum differs from 100 by
  at most 0.05 and \<open>10 ^ -12\<close> for each category present: the rounding of a percentage to
  one decimal moves it by 0.05 at most, and the float operations by less than \<open>10 ^ -12\<close>.
\<close>

theorem percentages_sum_to_100:
  "filtered \<noteq> [] \<Longrightarrow> length filtered < 2 ^ 53 \<Longrightarrow>
   \<exists>ps. map Percentage (category_report float64_ops filtered) = map Fin ps \<and>
        length ps = card (Main_Category ` set filtered) \<and>
        \<bar>sum_list ps - 100\<bar>
          \<le> of_nat (card (Main_Category ` set filtered)) * (1 / 20 + 1 / 10 ^ 12)"
proof -
  assume ne: "filtered \<noteq> []" and small: "length filtered < 2 ^ 53"
  let ?ks = "sort (remdups (map Main_Category filtered))"
  let ?c = "\<lambda>k. length (filter (\<lambda>r. Main_Category r = k) filtered)"
  let ?n = "length filtered"
  let ?F = "\<lambda>k. f64_round (f64_mul (f64_truediv (int (?c k)) (int ?n)) 100) 1"
  let ?X = "\<lambda>k. of_nat (?c k) / of_nat ?n * 100 :: rat"
  have "\<exists>p. ?F k = Fin p \<and> \<bar>p - ?X k\<bar> \<le> 1 / 20 + 1 / 10 ^ 12" if "k \<in> set ?ks" for k
  proof -
    from that obtain r where "r \<in> set filtered" "Main_Category r = k"
      by auto
    then have "filter (\<lambda>r. Main_Category r = k) filtered \<noteq> []"
      by (auto simp: filter_empty_conv)
    then have "0 < ?c k"
      by simp
    moreover have "?c k \<le> ?n"
      by (rule length_filter_le)
    ultimately show ?thesis
      using small by (rule percentage_near)
  qed
  from finite_values [of ?ks ?F ?X, OF this] obtain ps where
    ps: "map ?F ?ks = map Fin ps" "length ps = length ?ks"
      "\<bar>sum_list ps - sum_list (map ?X ?ks)\<bar> \<le> of_nat (length ?ks) * (1 / 20 + 1 / 10 ^ 12)"
    by blast
  have "sum_list (map ?X ?ks) = of_nat (sum_list (map ?c ?ks)) / of_nat ?n * 100"
    by (rule sum_list_shares)
  also have "\<dots> = 100"
    using ne by (simp add: group_sizes_sum)
  finally have total: "sum_list (map ?X ?ks) = 100" .
  have "map Percentage (category_report float64_ops filtered) = map ?F ?ks"
    by (simp add: category_report_percentage float64_ops_def)
  with ps(1) have m: "map Percentage (category_report float64_ops filtered) = map Fin ps"
    by (simp only:)
  have l: "length ps = card (Main_Category ` set filtered)"
    using ps(2) by (simp only: number_of_groups)
  have "\<bar>sum_list ps - 100\<bar>
          \<le> of_nat (card (Main_Category ` set filtered)) * (1 / 20 + 1 / 10 ^ 12)"
    using ps(3) by (simp only: total number_of_groups)
  with m l show ?thesis
    by blast
qed

theorem percentages_sum_to_100_witness:
  "sample_filtered \<noteq> [] \<and> length sample_filtered < 2 ^ 53 \<and>
   card (Main_Category ` set sample_filtered) = 3 \<and>
   map Percentage (category_report float64_ops sample_filtered)
     = map Fin [2343279181116211 / 70368744177664, 2343279181116211 / 70368744177664,
                2343279181116211 / 70368744177664] \<and>
   \<bar>sum_list [2343279181116211 / 70368744177664, 2343279181116211 / 70368744177664,
              2343279181116211 / 70368744177664] - (100 :: rat)\<bar>
     \<le> of_nat 3 * (1 / 20 + 1 / 10 ^ 12)"
proof -
  have ne: "sample_filtered \<noteq> []" and small: "length sample_filtered < 2 ^ 53"
    by (simp_all add: sample_filtered_def)
  have c: "card (Main_Category ` set sample_filtered) = 3"
    by (simp add: sample_filtered_def sample_row_def)
  from percentages_sum_to_100 [OF ne small] obtain ps where
    ps: "map Percentage (category_report float64_ops sample_filtered) = map Fin ps"
    and b: "\<bar>sum_list ps - 100\<bar>
      \<le> of_nat (card (Main_Category ` set sample_filtered)) * (1 / 20 + 1 / 10 ^ 12)"
    by blast
  have ev: "map Percentage (category_report float64_ops sample_filtered)
            = map Fin [2343279181116211 / 70368744177664, 2343279181116211 / 70368744177664,
                       2343279181116211 / 70368744177664]"
    by (simp add: sample_report)
  with ps have "map Fin ps
      = map Fin [2343279181116211 / 70368744177664, 2343279181116211 / 70368744177664,
                 2343279181116211 / 70368744177664]"
    by simp
  then have "ps = [2343279181116211 / 70368744177664, 2343279181116211 / 70368744177664,
                   2343279181116211 / 70368744177664]"
    by (auto simp: map_eq_Cons_conv)
  with b have "\<bar>sum_list [2343279181116211 / 70368744177664,
                  2343279181116211 / 70368744177664,
                  2343279181116211 / 70368744177664] - (100 :: rat)\<bar>
     \<le> of_nat 3 * (1 / 20 + 1 / 10 ^ 12)"
    unfolding c by simp
  with ne small c ev show ?thesis
    by blast
qed

subsection \<open>Exporter\<close>

lemma length_select: "length (select df m) \<le> length df"
proof -
  have "length (select df m) \<le> length (zip df m)"
    unfolding select_def length_map by (rule length_filter_le)
  then show ?thesis by simp
qed

lemma filtered_df_length:
  "filtered_df df date_range category_filter = Inr filtered \<Longrightarrow> length filtered \<le> length df"
  by (auto simp: filtered_df_def length_select split: sum.splits)

lemma load_data_length: "length (load_data to_datetime raw) \<le> length raw"
proof -
  have "length (dropna (zip raw ts)) \<le> length raw" for ts :: "timestamp option list"
    using length_filter_le [of "\<lambda>(r, t). t \<noteq> None" "zip raw ts"] by (simp add: dropna_def)
  then show ?thesis
    by (simp add: load_data_def Let_def)
qed

lemma category_report_length: "length (category_report ops filtered) \<le> length filtered"
proof -
  have "length (category_report ops filtered) = length (remdups (map Main_Category filtered))"
    by (simp add: category_report_def category_agg_def groupby_Main_Category_def)
  also have "\<dots> \<le> length (map Main_Category filtered)"
    by (rule length_remdups_leq)
  finally show ?thesis by simp
qed

lemma trim_rows_id: "(\<And>r. r \<in> set rows \<Longrightarrow> \<not> blank_row r) \<Longrightarrow> trim_rows rows = rows"
proof -
  assume a: "\<And>r. r \<in> set rows \<Longrightarrow> \<not> blank_row r"
  have "dropWhile blank_row (rev rows) = rev rows"
  proof (cases "rev rows")
    case Nil
    then show ?thesis by simp
  next
    case (Cons r rs)
    then have "r \<in> set rows"
      by (metis list.set_intros(1) set_rev)
    with a Cons show ?thesis by simp
  qed
  then show ?thesis
    by (simp add: trim_rows_def)
qed

lemma detail_row_not_blank:
  "Date r \<noteq> None \<Longrightarrow>
   \<not> blank_row (map stored [cell_of Dt (Date r), cell_of Ts (Report_Time r),
                             Str (Main_Category r), cell_of Str (Product r),
                             Str (Reporter r), cell_of Str (Facility r)])"
  by (auto simp: blank_row_def cell_of_def stored_def)

text \<open>An empty row at the end of a sheet is not read back; one between other rows is.\<close>

lemma read_excel_blank_rows:
  "read_excel conv [(''S'', [[Str ''h''], [NA], [Num 1], [NA], [NA]])] ''S''
     = Inr [[None], [Some (conv (Num 1))]]"
  by (simp add: read_excel_def trim_rows_def blank_row_def)

text \<open>
  C9: for a table filtered from a table loaded from a sheet of fewer than \<open>2 ^ 20\<close>
  records, as many as a sheet holds under its header, the export raises nothing, and
  reading the sheet \<open>Detailed Complaints\<close> of the workbook back gives as many records as
  the filtered table has rows, whatever the reader makes of a cell: every exported row
  holds a date, so no row is empty, and the header row is not counted.
\<close>

theorem export_roundtrip_row_count:
  "filtered_df (load_data to_datetime raw) date_range category_filter = Inr filtered \<Longrightarrow>
   length raw < 2 ^ 20 \<Longrightarrow>
   \<exists>wb records. excel_file ops filtered = Inr wb \<and>
      read_excel conv wb ''Detailed Complaints'' = Inr records \<and>
      length records = length filtered"
proof -
  assume f: "filtered_df (load_data to_datetime raw) date_range category_filter = Inr filtered"
    and small: "length raw < 2 ^ 20"
  let ?head = "map Str [''Date'', ''Report_Time'', ''Main_Category'', ''Product'',
      ''Reporter'', ''Facility'']"
  let ?rows = "map (map stored) (data (detailed_df filtered))"
  let ?summary = "take (2 ^ 20) (map Str (columns (summary_df (category_report ops filtered)))
      # map (map stored) (data (summary_df (category_report ops filtered))))"
  let ?wb = "[(''Category Summary'', ?summary), (''Detailed Complaints'', ?head # ?rows)]"
  have n: "length filtered < 2 ^ 20"
    using filtered_df_length [OF f] load_data_length [of to_datetime raw] small by simp
  then have m: "length (category_report ops filtered) < 2 ^ 20"
    using category_report_length [of ops filtered] by simp
  have w: "excel_file ops filtered = Inr ?wb"
    using n m
    by (simp add: excel_file_def to_excel_def getitem_def df_to_excel_def
        summary_df_def detailed_df_def)
  have "set filtered \<subseteq> set (load_data to_datetime raw)"
    using f by (rule filtered_df_subset)
  then have d: "Date r \<noteq> None" if "r \<in> set filtered" for r
    using that by (auto simp: load_data_def Let_def dropna_def load_row_def)
  have "\<not> blank_row r" if "r \<in> set (?head # ?rows)" for r
  proof (cases "r = ?head")
    case True
    then show ?thesis by (simp add: blank_row_def)
  next
    case False
    with that obtain x where x: "x \<in> set filtered"
      and r: "r = map stored [cell_of Dt (Date x), cell_of Ts (Report_Time x),
                             Str (Main_Category x), cell_of Str (Product x),
                             Str (Reporter x), cell_of Str (Facility x)]"
      by (auto simp: detailed_df_def)
    from d [OF x] show ?thesis
      unfolding r by (rule detail_row_not_blank)
  qed
  then have "trim_rows (?head # ?rows) = ?head # ?rows"
    by (rule trim_rows_id)
  then have "read_excel conv ?wb ''Detailed Complaints''
      = Inr (map (map (\<lambda>c. if c = NA then None else Some (conv c))) ?rows)"
    by (simp add: read_excel_def)
  moreover have "length (map (map (\<lambda>c. if c = NA then None else Some (conv c))) ?rows)
      = length filtered"
    by (simp add: detailed_df_def)
  ultimately show ?thesis
    using w by blast
qed

theorem export_roundtrip_row_count_witness:
  "filtered_df (load_data sample_to_datetime sample_sheet) [10, 12]
     [''Late'', ''Undefined'', ''Damaged''] = Inr sample_filtered \<and>
   length sample_sheet < 2 ^ 20 \<and>
   length sample_filtered = 3 \<and>
   (case excel_file float64_ops sample_filtered of
      Inl e \<Rightarrow> None
    | Inr wb \<Rightarrow>
        (case read_excel (\<lambda>c. c) wb ''Detailed Complaints'' of
           Inl e \<Rightarrow> None
         | Inr records \<Rightarrow> Some (length records)))
   = Some 3"
proof -
  have small: "length sample_sheet < 2 ^ 20"
    by (simp add: sample_sheet_def)
  from export_roundtrip_row_count
    [OF sample_filter small, of float64_ops "\<lambda>c. c"]
  obtain wb records where
    "excel_file float64_ops sample_filtered = Inr wb"
    "read_excel (\<lambda>c. c) wb ''Detailed Complaints'' = Inr records"
    "length records = length sample_filtered"
    by blast
  moreover have "length sample_filtered = 3"
    by (simp add: sample_filtered_def)
  ultimately show ?thesis
    using sample_filter small by simp
qed


end
